theory Spec2Isabelle
  imports Complex_Main "HOL-Library.Char_ord" "HOL-Library.List_Lexorder" "HOL-Library.Sublist"
begin

section \<open>Strings, decimal numerals and path names\<close>

text \<open>
  A Python \<open>str\<close> is modelled as a \<open>string\<close>; a \<open>char\<close> stands for a code point
  below 256. Strings are compared as Python compares them: lexicographically by code
  point (\<open>Char_ord\<close>, \<open>List_Lexorder\<close>).
\<close>

definition newline :: char where
  "newline = CHR 0x0A"

definition is_digit :: "char \<Rightarrow> bool" where
  \<comment> \<open>\<open>\d\<close> on code points below 256: the ASCII digits.\<close>
  "is_digit c = (CHR ''0'' \<le> c \<and> c \<le> CHR ''9'')"

definition tolower :: "char \<Rightarrow> char" where
  \<comment> \<open>The simple lower-case mapping of Unicode on code points below 256: \<open>A-Z\<close> and
      \<open>0xC0-0xDE\<close> without \<open>0xD7\<close> move up by 32.\<close>
  "tolower c =
     (let n = (of_char c :: nat)
      in if (65 \<le> n \<and> n \<le> 90) \<or> (192 \<le> n \<and> n \<le> 222 \<and> n \<noteq> 215)
         then char_of (n + 32) else c)"

definition eq_ci :: "string \<Rightarrow> string \<Rightarrow> bool" where
  \<comment> \<open>A literal under \<open>re.IGNORECASE\<close>: character by character, equal lower-case forms.\<close>
  "eq_ci xs ys = (map tolower xs = map tolower ys)"

definition lstrip_dots :: "string \<Rightarrow> string" where
  \<comment> \<open>\<open>s.lstrip('.')\<close>\<close>
  "lstrip_dots s = dropWhile (\<lambda>c. c = CHR ''.'') s"

definition digit_char :: "nat \<Rightarrow> char" where
  "digit_char d = char_of (48 + d)"

fun str_nat :: "nat \<Rightarrow> string" where
  \<comment> \<open>\<open>str(i)\<close> of a non-negative \<open>int\<close>, as an f-string renders it.\<close>
  "str_nat n = (if n < 10 then [digit_char n] else str_nat (n div 10) @ [digit_char (n mod 10)])"

declare str_nat.simps [simp del]

definition rfind_dot :: "string \<Rightarrow> nat option" where
  \<comment> \<open>\<open>name.rfind('.')\<close>: the index of the last dot, \<open>None\<close> for Python's \<open>-1\<close>.\<close>
  "rfind_dot name =
     (if CHR ''.'' \<in> set name
      then Some (length name - 1 - length (takeWhile (\<lambda>c. c \<noteq> CHR ''.'') (rev name)))
      else None)"

definition path_suffix :: "string \<Rightarrow> string" where
  \<comment> \<open>\<open>PurePath.suffix\<close> (pathlib up to Python 3.13) of a final path component:
      \<open>name[i:]\<close> when \<open>0 < i < len(name) - 1\<close> for the last dot \<open>i\<close>, else empty.\<close>
  "path_suffix name =
     (case rfind_dot name of
        None \<Rightarrow> []
      | Some i \<Rightarrow> if 0 < i \<and> i + 1 < length name then drop i name else [])"

definition path_stem :: "string \<Rightarrow> string" where
  \<comment> \<open>\<open>PurePath.stem\<close>: \<open>name[:i]\<close> under the same condition, else the whole name.\<close>
  "path_stem name =
     (case rfind_dot name of
        None \<Rightarrow> name
      | Some i \<Rightarrow> if 0 < i \<and> i + 1 < length name then take i name else name)"

section \<open>The renamer: \<open>rename_files.py\<close>\<close>

subsection \<open>The file name pattern\<close>

text \<open>
  The pattern is \<^verbatim>\<open>^(.+)\.EXT(?:\.?(\d+))?$\<close> under \<open>re.IGNORECASE\<close>, where \<open>EXT\<close> is
  \<open>re.escape(old_ext)\<close>, a literal. \<open>pattern.match\<close> runs the backtracking matcher from
  the start of the name: \<open>(.+)\<close> takes every character up to the first line feed
  (\<open>.\<close> matches no line feed), then gives characters back one at a time, keeping at
  least one; after each base the rest must match. \<open>$\<close> matches at the end of the
  string and before a line feed that ends the string.
\<close>

definition at_end :: "string \<Rightarrow> bool" where
  \<comment> \<open>\<open>$\<close> without \<open>re.MULTILINE\<close>\<close>
  "at_end r = (r = [] \<or> r = [newline])"

definition digits_to_end :: "string \<Rightarrow> string option" where
  \<comment> \<open>\<open>(\d+)$\<close>: the longest run of digits, then \<open>$\<close>. Giving a digit back leaves a
      digit in front of \<open>$\<close>, so only the longest run can succeed.\<close>
  "digits_to_end r =
     (let ds = takeWhile is_digit r
      in if ds \<noteq> [] \<and> at_end (dropWhile is_digit r) then Some ds else None)"

definition opt_number :: "string \<Rightarrow> string option option" where
  \<comment> \<open>\<open>(?:\.?(\d+))?$\<close>: the group with the dot, the group without the dot, no group.
      The result is group 2 (\<open>None\<close> when the group did not take part).\<close>
  "opt_number r =
     (case (case r of [] \<Rightarrow> None
                    | c # r' \<Rightarrow> if c = CHR ''.'' then digits_to_end r' else None) of
        Some ds \<Rightarrow> Some (Some ds)
      | None \<Rightarrow>
          (case digits_to_end r of
             Some ds \<Rightarrow> Some (Some ds)
           | None \<Rightarrow> if at_end r then Some None else None))"

definition match_ext :: "string \<Rightarrow> string \<Rightarrow> string option option" where
  \<comment> \<open>\<open>\.EXT(?:\.?(\d+))?$\<close> on the rest of the name after the base.\<close>
  "match_ext ext r =
     (case r of
        [] \<Rightarrow> None
      | c # r' \<Rightarrow>
          if c = CHR ''.'' \<and> length ext \<le> length r' \<and> eq_ci (take (length ext) r') ext
          then opt_number (drop (length ext) r') else None)"

fun try_base :: "string \<Rightarrow> string \<Rightarrow> nat \<Rightarrow> (string \<times> string option) option" where
  \<comment> \<open>The base of \<open>k\<close> characters, then one character fewer, down to one character.\<close>
  "try_base ext name 0 = None"
| "try_base ext name (Suc k) =
     (case match_ext ext (drop (Suc k) name) of
        Some number \<Rightarrow> Some (take (Suc k) name, number)
      | None \<Rightarrow> try_base ext name k)"

definition pattern_match :: "string \<Rightarrow> string \<Rightarrow> (string \<times> string option) option" where
  \<comment> \<open>\<open>pattern.match(name)\<close>: groups 1 and 2 of the first match found.\<close>
  "pattern_match ext name =
     try_base ext name (length (takeWhile (\<lambda>c. c \<noteq> newline) name))"

definition new_name :: "string \<Rightarrow> string \<Rightarrow> string option \<Rightarrow> string" where
  \<comment> \<open>Lines 63-66: \<open>if number\<close> is false for \<open>None\<close> and for the empty string.\<close>
  "new_name new_ext base_name number =
     (case number of
        Some ds \<Rightarrow>
          if ds \<noteq> [] then base_name @ ''.'' @ ds @ ''.'' @ new_ext
          else base_name @ ''.'' @ new_ext
      | None \<Rightarrow> base_name @ ''.'' @ new_ext)"

definition planned_name :: "string \<Rightarrow> string \<Rightarrow> string \<Rightarrow> string option" where
  \<comment> \<open>Lines 39-66 for one file name: the new name, \<open>None\<close> when the name does not match.\<close>
  "planned_name old_ext new_ext name =
     (case pattern_match (lstrip_dots old_ext) name of
        None \<Rightarrow> None
      | Some (base_name, number) \<Rightarrow> Some (new_name (lstrip_dots new_ext) base_name number))"

subsection \<open>The folder\<close>

text \<open>
  The folder's direct children, by name. \<open>Dangling\<close> is a symbolic link whose target is
  missing: \<open>iterdir\<close> lists it, \<open>exists\<close> and \<open>is_file\<close> (which follow links) are
  false for it. A link to a file or directory counts as what it points to. Names are
  compared exactly (a case-sensitive file system), and \<open>folder / name\<close> is the child
  \<open>name\<close>: the new extension holds no path separator.
\<close>

datatype kind = RegularFile | Directory | Other | Dangling

type_synonym folder = "(string \<times> kind) list"

definition path_exists :: "folder \<Rightarrow> string \<Rightarrow> bool" where
  "path_exists fs name = (case map_of fs name of None \<Rightarrow> False | Some k \<Rightarrow> k \<noteq> Dangling)"

definition is_file :: "folder \<Rightarrow> string \<Rightarrow> bool" where
  "is_file fs name = (map_of fs name = Some RegularFile)"

definition iterdir :: "folder \<Rightarrow> string list" where
  "iterdir fs = remdups (map fst fs)"

datatype os_error = FileNotFoundError | OSError

definition os_rename ::
  "(string \<Rightarrow> string \<Rightarrow> bool) \<Rightarrow> folder \<Rightarrow> string \<Rightarrow> string \<Rightarrow> os_error + folder" where
  \<comment> \<open>\<open>file_path.rename(target)\<close>. \<open>refused src dst\<close> says that the operating system
      refuses this rename (permissions, a name that is too long). Where the renamer
      calls it the target is absent or a dangling link, which \<open>rename(2)\<close> replaces.\<close>
  "os_rename refused fs src dst =
     (case map_of fs src of
        None \<Rightarrow> Inl FileNotFoundError
      | Some k \<Rightarrow>
          if refused src dst then Inl OSError
          else Inr ((dst, k) # filter (\<lambda>e. fst e \<noteq> src \<and> fst e \<noteq> dst) fs))"

subsection \<open>Collision avoidance (lines 70-80)\<close>

definition candidate :: "string \<Rightarrow> string \<Rightarrow> nat \<Rightarrow> string" where
  \<comment> \<open>\<open>f"{stem}_{i}{suffix}"\<close>\<close>
  "candidate stem sfx i = stem @ ''_'' @ str_nat i @ sfx"

definition names_length :: "folder \<Rightarrow> nat" where
  "names_length fs = sum_list (map (\<lambda>e. length (fst e)) fs)"

lemma str_nat_bound: "n < 10 ^ length (str_nat n)"
proof (induction n rule: str_nat.induct)
  case (1 n)
  show ?case
  proof (cases "n < 10")
    case True
    then show ?thesis by (simp add: str_nat.simps [of n])
  next
    case False
    from 1 [OF False] have "n div 10 < 10 ^ length (str_nat (n div 10))" .
    then have "n < 10 * 10 ^ length (str_nat (n div 10))" by linarith
    with False show ?thesis by (simp add: str_nat.simps [of n])
  qed
qed

lemma name_length_le: "(name, k) \<in> set fs \<Longrightarrow> length name \<le> names_length fs"
  by (induction fs) (auto simp: names_length_def)

lemma path_exists_length: "path_exists fs name \<Longrightarrow> length name \<le> names_length fs"
proof -
  assume "path_exists fs name"
  then obtain k where "map_of fs name = Some k"
    by (auto simp: path_exists_def split: option.splits)
  then have "(name, k) \<in> set fs" by (rule map_of_SomeD)
  then show ?thesis by (rule name_length_le)
qed

lemma candidate_exists_bound:
  assumes "path_exists fs (candidate stem sfx i)"
  shows "i < 10 ^ names_length fs"
proof -
  have "length (str_nat i) \<le> length (candidate stem sfx i)"
    by (simp add: candidate_def)
  also have "\<dots> \<le> names_length fs" using assms by (rule path_exists_length)
  finally have "(10::nat) ^ length (str_nat i) \<le> 10 ^ names_length fs"
    by (simp add: power_increasing)
  with str_nat_bound [of i] show ?thesis by linarith
qed

function find_free :: "folder \<Rightarrow> string \<Rightarrow> string \<Rightarrow> nat \<Rightarrow> string" where
  \<comment> \<open>The \<open>while True\<close> loop of lines 75-80, entered with \<open>i\<close>.\<close>
  "find_free fs stem sfx i =
     (if \<not> path_exists fs (candidate stem sfx i) then candidate stem sfx i
      else find_free fs stem sfx (i + 1))"
  by pat_completeness auto
termination
proof (relation "measure (\<lambda>(fs, stem, sfx, i). 10 ^ names_length fs - i)")
  show "wf (measure (\<lambda>(fs, stem, sfx, i). 10 ^ names_length fs - i))" by simp
next
  fix fs :: folder and stem sfx :: string and i :: nat
  assume "\<not> \<not> path_exists fs (candidate stem sfx i)"
  then have "i < 10 ^ names_length fs" by (simp add: candidate_exists_bound)
  then show "((fs, stem, sfx, i + 1), (fs, stem, sfx, i))
      \<in> measure (\<lambda>(fs, stem, sfx, i). 10 ^ names_length fs - i)"
    by simp
qed

declare find_free.simps [simp del]

definition resolve_target :: "folder \<Rightarrow> string \<Rightarrow> string" where
  \<comment> \<open>Lines 68-80: the name of the final \<open>target\<close> for the computed \<open>new_name\<close>.\<close>
  "resolve_target fs name =
     (if path_exists fs name then find_free fs (path_stem name) (path_suffix name) 1
      else name)"

subsection \<open>The loop (lines 30-94)\<close>

datatype folder_arg = NoSuchFolder | NotADirectory | Folder folder

datatype message =
    ErrorNotExist
  | ErrorNotDir
  | Renaming bool string string
  | ErrorRenaming string os_error

record run =
  folder_state :: folder
  printed :: "message list"
  renamed_count :: nat

definition rename_step ::
  "(string \<Rightarrow> string \<Rightarrow> bool) \<Rightarrow> string \<Rightarrow> string \<Rightarrow> bool \<Rightarrow> run \<Rightarrow> string \<Rightarrow> run" where
  \<comment> \<open>One iteration of the \<open>for\<close> loop, for the listed name \<open>name\<close>. \<open>Renaming d a b\<close>
      is the line \<open>Renaming: a -> b\<close>, with the prefix \<open>[DRY RUN]\<close> when \<open>d\<close>.\<close>
  "rename_step refused old_ext new_ext dry_run st name =
     (if \<not> is_file (folder_state st) name then st
      else case planned_name old_ext new_ext name of
        None \<Rightarrow> st
      | Some new \<Rightarrow>
          let target = resolve_target (folder_state st) new;
              st1 = st\<lparr>printed := printed st @ [Renaming dry_run name target]\<rparr>
          in if \<not> dry_run then
               (case os_rename refused (folder_state st1) name target of
                  Inr fs' \<Rightarrow> st1\<lparr>folder_state := fs', renamed_count := renamed_count st1 + 1\<rparr>
                | Inl e \<Rightarrow> st1\<lparr>printed := printed st1 @ [ErrorRenaming name e]\<rparr>)
             else st1\<lparr>renamed_count := renamed_count st1 + 1\<rparr>)"

record outcome =
  returned :: nat
  folder_after :: folder_arg
  stdout :: "message list"

definition rename_files ::
  "(string \<Rightarrow> string \<Rightarrow> bool) \<Rightarrow> folder_arg \<Rightarrow> string \<Rightarrow> string \<Rightarrow> bool \<Rightarrow> outcome" where
  \<comment> \<open>\<open>rename_files(folder_path, old_ext, new_ext, dry_run)\<close>: the count returned, the
      folder afterwards and the lines printed. \<open>sorted(folder.iterdir())\<close> lists the
      folder once, before the loop.\<close>
  "rename_files refused folder old_ext new_ext dry_run =
     (case folder of
        NoSuchFolder \<Rightarrow>
          \<lparr>returned = 0, folder_after = NoSuchFolder, stdout = [ErrorNotExist]\<rparr>
      | NotADirectory \<Rightarrow>
          \<lparr>returned = 0, folder_after = NotADirectory, stdout = [ErrorNotDir]\<rparr>
      | Folder fs0 \<Rightarrow>
          let st = foldl (rename_step refused old_ext new_ext dry_run)
                     \<lparr>folder_state = fs0, printed = [], renamed_count = 0\<rparr> (sort (iterdir fs0))
          in \<lparr>returned = renamed_count st, folder_after = Folder (folder_state st), stdout = printed st\<rparr>)"

subsection \<open>The name grammar of the specification\<close>

text \<open>
  The three shapes of a name in the words of the specification: \<open><base>.<ext>\<close>,
  \<open><base>.<ext><digits>\<close> and \<open><base>.<ext>.<digits>\<close>, the extension compared without
  regard to case. \<open>name_form ext base number name\<close> says that \<open>name\<close> splits in this
  way, with the digit group \<open>number\<close> (\<open>None\<close> when there is none).
\<close>

definition digit_group :: "string \<Rightarrow> bool" where
  "digit_group ds = (ds \<noteq> [] \<and> list_all is_digit ds)"

definition tail_of :: "string option \<Rightarrow> bool \<Rightarrow> string" where
  \<comment> \<open>What follows the extension: nothing, the digits, or a dot and the digits.\<close>
  "tail_of number dotted =
     (case number of None \<Rightarrow> [] | Some ds \<Rightarrow> (if dotted then ''.'' else []) @ ds)"

definition name_form :: "string \<Rightarrow> string \<Rightarrow> string option \<Rightarrow> string \<Rightarrow> bool" where
  "name_form ext base number name =
     (base \<noteq> [] \<and>
      (let e = take (length ext) (drop (length base + 1) name)
       in eq_ci e ext \<and>
          (case number of
             None \<Rightarrow> name = base @ ''.'' @ e
           | Some ds \<Rightarrow>
               digit_group ds \<and>
               (name = base @ ''.'' @ e @ ds \<or> name = base @ ''.'' @ e @ ''.'' @ ds))))"

subsection \<open>Reading a run\<close>

fun renamings :: "message list \<Rightarrow> (string \<times> string) list" where
  \<comment> \<open>The renames a list of printed lines announces: source and target.\<close>
  "renamings [] = []"
| "renamings (Renaming d src target # ms) = (src, target) # renamings ms"
| "renamings (m # ms) = renamings ms"

definition matched_files :: "folder_arg \<Rightarrow> string \<Rightarrow> string \<Rightarrow> string list" where
  \<comment> \<open>The listed names that are regular files and match the pattern, in sorted order.\<close>
  "matched_files folder old_ext new_ext =
     (case folder of
        Folder fs \<Rightarrow>
          filter (\<lambda>name. is_file fs name \<and> planned_name old_ext new_ext name \<noteq> None)
            (sort (iterdir fs))
      | _ \<Rightarrow> [])"

section \<open>The combiner: \<open>append_text.py\<close>\<close>

subsection \<open>What a run sees of the file system\<close>

text \<open>
  A path that \<open>glob\<close> or \<open>rglob\<close> yields, relative to the source directory, is the list
  of its components; \<open>Path\<close> objects compare component by component, each component as
  a string (a POSIX path). An entry carries what the run asks of the path: whether it
  is a regular file, whether it resolves to the output file, the bytes that opening
  and reading it give (\<open>None\<close> when \<open>open\<close> or \<open>read\<close> raises an \<open>OSError\<close>), and its
  \<open>stat\<close> fields. The directory is not modified while the run lasts, so these answers
  do not change, and the pattern is one that \<open>glob\<close> accepts.
\<close>

datatype read_error = UnicodeDecodeError | ReadError

record entry =
  rel_path :: "string list"
  is_regular :: bool
  is_output :: bool
  file_bytes :: "string option"
  st_size :: nat
  st_ctime :: rat

record arguments =
  source_dir :: string
  output_file :: string
  file_pattern :: string
  sort_by_date :: bool
  encoding :: string
  recursive :: bool

text \<open>
  The output file is the list of the chunks written to it, one for each
  \<open>outfile.write\<close> that succeeded, in order; its text is their concatenation. A chunk
  is tagged with what wrote it.
\<close>

datatype tag = HeaderPart | SeparatorOf entry | ContentOf entry | NewlineOf entry | FooterPart

type_synonym chunk = "tag \<times> string"

text \<open>The lines printed, one constructor for each \<open>print\<close> call.\<close>

datatype notice =
    DirMissing string
  | DirNotDir string
  | NoFilesFound string string
  | FoundFiles nat string
  | OutputPath string
  | Dashes
  | Processed entry nat
  | SkippedEncoding entry
  | ErrorReading entry
  | ErrorWriting
  | Succeeded nat nat string
  | FailedToCombine

text \<open>
  The world of a run. \<open>glob_result recursive pattern\<close> is what \<open>rglob\<close> (or \<open>glob\<close>)
  yields, in the order of the scan. \<open>decode encoding bytes\<close> is the text the codec
  gives for the bytes under \<open>errors='replace'\<close>: with that handler the decoder
  replaces every malformed sequence and returns a text for every byte string, so
  \<open>decode\<close> is a total function and reading raises no \<open>UnicodeDecodeError\<close>. \<open>open_ok\<close>
  says that the output file can be opened for writing; \<open>write_ok text chunk\<close> that
  \<open>outfile.write(chunk)\<close> succeeds when \<open>text\<close> has been written (a chunk the encoding
  cannot encode, a full disk); \<open>close_ok text\<close> that leaving the \<open>with\<close> block succeeds.
  A refused write adds nothing to the file. \<open>print_ok line\<close> says that \<open>stdout\<close> can
  print the line (it cannot when its encoding lacks the check mark and the cross of
  the per-file lines, or a character of the file name). It is asked for the lines
  printed inside the \<open>try\<close> block of the loop and in its handlers, where a failing
  \<open>print\<close> changes the course of the run. The other lines are printed outside every
  handler, where a failing \<open>print\<close> ends the program with a traceback; they are taken
  to print.
\<close>

record world =
  source_exists :: bool
  source_is_dir :: bool
  glob_result :: "bool \<Rightarrow> string \<Rightarrow> entry list"
  source_absolute :: string
  now_text :: string
  ctime_text :: "rat \<Rightarrow> string"
  decode :: "string \<Rightarrow> string \<Rightarrow> string"
  open_ok :: bool
  write_ok :: "string \<Rightarrow> string \<Rightarrow> bool"
  close_ok :: "string \<Rightarrow> bool"
  print_ok :: "notice \<Rightarrow> bool"

definition read_file :: "world \<Rightarrow> arguments \<Rightarrow> entry \<Rightarrow> read_error + string" where
  \<comment> \<open>Lines 80-81: \<open>open(file_path, 'r', encoding=encoding, errors='replace')\<close> and
      \<open>read()\<close>. The failures are those of opening and reading; decoding has none.\<close>
  "read_file w a f =
     (case file_bytes f of
        None \<Rightarrow> Inl ReadError
      | Some bytes \<Rightarrow> Inr (decode w (encoding a) bytes))"

subsection \<open>The text written\<close>

definition file_name :: "string list \<Rightarrow> string" where
  \<comment> \<open>\<open>file_path.name\<close>: the last component, empty for the empty path.\<close>
  "file_name p = (if p = [] then [] else last p)"

fun path_text :: "string list \<Rightarrow> string" where
  \<comment> \<open>\<open>str(file_path.relative_to(source_path))\<close>\<close>
  "path_text [] = ''.''"
| "path_text [c] = c"
| "path_text (c # cs) = c @ ''/'' @ path_text cs"

fun str_commas :: "nat \<Rightarrow> string" where
  \<comment> \<open>\<open>f"{n:,}"\<close>: decimal digits in groups of three.\<close>
  "str_commas n =
     (if n < 1000 then str_nat n
      else str_commas (n div 1000) @ '','' @
           [digit_char (n mod 1000 div 100), digit_char (n mod 100 div 10), digit_char (n mod 10)])"

declare str_commas.simps [simp del]

definition rule80 :: string where
  \<comment> \<open>\<open>'=' * 80\<close>\<close>
  "rule80 = replicate 80 CHR ''=''"

definition separator :: "world \<Rightarrow> entry \<Rightarrow> nat \<Rightarrow> string" where
  \<comment> \<open>Lines 89-95, for a file of \<open>lines\<close> line feeds.\<close>
  "separator w f lines =
     [newline] @ rule80 @ [newline] @
     ''FILE: '' @ file_name (rel_path f) @ [newline] @
     ''Path: '' @ path_text (rel_path f) @ [newline] @
     ''Size: '' @ str_commas (st_size f) @ '' bytes'' @ [newline] @
     ''Lines: '' @ str_commas lines @ [newline] @
     ''Created: '' @ ctime_text w (st_ctime f) @ [newline] @
     rule80 @ [newline, newline]"

definition out_text :: "chunk list \<Rightarrow> string" where
  "out_text chunks = concat (map snd chunks)"

definition sort_method :: "arguments \<Rightarrow> string" where
  "sort_method a = (if sort_by_date a then ''creation date'' else ''name'')"

definition header_chunks :: "world \<Rightarrow> arguments \<Rightarrow> entry list \<Rightarrow> chunk list" where
  \<comment> \<open>Lines 70-75\<close>
  "header_chunks w a files = map (Pair HeaderPart)
     [''Combined file created: '' @ now_text w @ [newline],
      ''Source directory: '' @ source_absolute w @ [newline],
      ''Total files: '' @ str_nat (length files) @ [newline],
      ''Sorted by: '' @ sort_method a @ [newline],
      ''Encoding: '' @ encoding a @ [newline],
      rule80 @ [newline, newline]]"

definition footer_chunks :: "nat \<Rightarrow> nat \<Rightarrow> chunk list" where
  \<comment> \<open>Lines 116-120; the last rule has 81 characters.\<close>
  "footer_chunks files_done lines_done = map (Pair FooterPart)
     [[newline] @ rule80 @ [newline],
      ''End of combined file'' @ [newline],
      ''Files processed: '' @ str_nat files_done @ [newline],
      ''Total lines: '' @ str_nat lines_done @ [newline],
      ''='' @ rule80 @ [newline]]"

definition block_chunks :: "world \<Rightarrow> entry \<Rightarrow> string \<Rightarrow> chunk list" where
  \<comment> \<open>The writes of lines 96-103 for a file read as \<open>content\<close>.\<close>
  "block_chunks w f content =
     [(SeparatorOf f, separator w f (count_list content newline)), (ContentOf f, content)] @
     (if content \<noteq> [] \<and> last content \<noteq> newline then [(NewlineOf f, [newline])] else [])"

fun write_chunks :: "world \<Rightarrow> chunk list \<Rightarrow> chunk list \<Rightarrow> bool \<times> chunk list" where
  \<comment> \<open>A sequence of \<open>outfile.write\<close> calls: it stops at the first that raises. The
      result says whether all succeeded, and what the file holds then.\<close>
  "write_chunks w sofar [] = (True, sofar)"
| "write_chunks w sofar (c # cs) =
     (if write_ok w (out_text sofar) (snd c) then write_chunks w (sofar @ [c]) cs
      else (False, sofar))"

subsection \<open>The run (lines 27-126)\<close>

text \<open>
  The state of the loop. \<open>counted\<close> lists the files for which line 105 has run, in
  order: it is the history of the counter \<open>files_processed\<close>, which is its length.
\<close>

record combining =
  written :: "chunk list"
  files_processed :: nat
  total_lines :: nat
  messages :: "notice list"
  counted :: "entry list"

text \<open>
  An iteration either goes on to the next file or lets an exception leave the loop;
  either way it leaves a state behind.
\<close>

datatype progress = Continue combining | Raised combining

definition handler_prints :: "world \<Rightarrow> combining \<Rightarrow> notice \<Rightarrow> progress" where
  \<comment> \<open>An \<open>except\<close> clause of the loop (lines 110-113): it prints its line. When that
      \<open>print\<close> raises, the exception leaves the loop.\<close>
  "handler_prints w st line =
     (if print_ok w line then Continue (st\<lparr>messages := messages st @ [line]\<rparr>) else Raised st)"

definition process_file :: "world \<Rightarrow> arguments \<Rightarrow> combining \<Rightarrow> entry \<Rightarrow> progress" where
  \<comment> \<open>One iteration of the loop, lines 78-113. Every exception of the \<open>try\<close> block,
      from the read, from a write to the output or from the \<open>print\<close> of line 108 (which
      comes after the two counters are raised), ends in one of the two handlers;
      \<open>ErrorReading\<close> is the line \<open>Error reading <name>\<close>.\<close>
  "process_file w a st f =
     (case read_file w a f of
        Inl UnicodeDecodeError \<Rightarrow> handler_prints w st (SkippedEncoding f)
      | Inl ReadError \<Rightarrow> handler_prints w st (ErrorReading f)
      | Inr content \<Rightarrow>
          (case write_chunks w (written st) (block_chunks w f content) of
             (False, out) \<Rightarrow> handler_prints w (st\<lparr>written := out\<rparr>) (ErrorReading f)
           | (True, out) \<Rightarrow>
               let st' = st\<lparr>written := out,
                            files_processed := files_processed st + 1,
                            total_lines := total_lines st + count_list content newline,
                            counted := counted st @ [f]\<rparr>
               in if print_ok w (Processed f (count_list content newline))
                  then Continue (st'\<lparr>messages := messages st' @
                                    [Processed f (count_list content newline)]\<rparr>)
                  else handler_prints w st' (ErrorReading f)))"

fun process_files :: "world \<Rightarrow> arguments \<Rightarrow> combining \<Rightarrow> entry list \<Rightarrow> progress" where
  \<comment> \<open>The \<open>for\<close> loop of line 77.\<close>
  "process_files w a st [] = Continue st"
| "process_files w a st (f # fs) =
     (case process_file w a st f of
        Continue st' \<Rightarrow> process_files w a st' fs
      | Raised st' \<Rightarrow> Raised st')"

definition files_to_combine :: "world \<Rightarrow> arguments \<Rightarrow> entry list" where
  \<comment> \<open>Lines 40-54: the scan, the filter and the stable sort.\<close>
  "files_to_combine w a =
     (let files = filter (\<lambda>f. is_regular f \<and> \<not> is_output f)
                    (glob_result w (recursive a) (file_pattern a))
      in if sort_by_date a then sort_key st_ctime files else sort_key rel_path files)"

record result =
  processed :: nat
  lines_total :: nat
  success :: bool
  out_file :: "chunk list option"
  notices :: "notice list"
  counted_files :: "entry list"

definition combine_files :: "world \<Rightarrow> arguments \<Rightarrow> result" where
  \<comment> \<open>The tuple returned, the output file (\<open>None\<close> when the run did not open it), the
      lines printed, and the files counted. An exception that leaves the loop, a
      refused header or footer write and a refused close all end in the handler of
      lines 122-124.\<close>
  "combine_files w a =
     (if \<not> source_exists w then
        \<lparr>processed = 0, lines_total = 0, success = False, out_file = None,
         notices = [DirMissing (source_dir a)], counted_files = []\<rparr>
      else if \<not> source_is_dir w then
        \<lparr>processed = 0, lines_total = 0, success = False, out_file = None,
         notices = [DirNotDir (source_dir a)], counted_files = []\<rparr>
      else
        let files = files_to_combine w a in
        if files = [] then
          \<lparr>processed = 0, lines_total = 0, success = False, out_file = None,
           notices = [NoFilesFound (file_pattern a) (source_dir a)], counted_files = []\<rparr>
        else
          let found = [FoundFiles (length files) (sort_method a), OutputPath (output_file a), Dashes] in
          if \<not> open_ok w then
            \<lparr>processed = 0, lines_total = 0, success = False, out_file = None,
             notices = found @ [ErrorWriting], counted_files = []\<rparr>
          else
            (case write_chunks w [] (header_chunks w a files) of
               (False, out) \<Rightarrow>
                 \<lparr>processed = 0, lines_total = 0, success = False, out_file = Some out,
                  notices = found @ [ErrorWriting], counted_files = []\<rparr>
             | (True, out) \<Rightarrow>
                 (case process_files w a
                         \<lparr>written = out, files_processed = 0, total_lines = 0,
                          messages = found, counted = []\<rparr> files of
                    Raised st \<Rightarrow>
                      \<lparr>processed = files_processed st, lines_total = total_lines st,
                       success = False, out_file = Some (written st),
                       notices = messages st @ [ErrorWriting], counted_files = counted st\<rparr>
                  | Continue st \<Rightarrow>
                      (case write_chunks w (written st)
                              (footer_chunks (files_processed st) (total_lines st)) of
                         (False, out') \<Rightarrow>
                           \<lparr>processed = files_processed st, lines_total = total_lines st,
                            success = False, out_file = Some out',
                            notices = messages st @ [ErrorWriting], counted_files = counted st\<rparr>
                       | (True, out') \<Rightarrow>
                           if close_ok w (out_text out') then
                             \<lparr>processed = files_processed st, lines_total = total_lines st,
                              success = True, out_file = Some out',
                              notices = messages st, counted_files = counted st\<rparr>
                           else
                             \<lparr>processed = files_processed st, lines_total = total_lines st,
                              success = False, out_file = Some out',
                              notices = messages st @ [ErrorWriting],
                              counted_files = counted st\<rparr>))))"

subsection \<open>The command line (lines 129-208)\<close>

record cli =
  cli_source_dir :: string
  cli_output_file :: string
  cli_pattern :: string
  cli_sort_by_name :: bool
  cli_encoding :: string
  cli_recursive :: bool

definition arguments_of :: "cli \<Rightarrow> arguments" where
  \<comment> \<open>Lines 190-197\<close>
  "arguments_of c =
     \<lparr>source_dir = cli_source_dir c, output_file = cli_output_file c,
      file_pattern = cli_pattern c, sort_by_date = (\<not> cli_sort_by_name c),
      encoding = cli_encoding c, recursive = cli_recursive c\<rparr>"

definition main :: "world \<Rightarrow> cli \<Rightarrow> nat \<times> notice list" where
  \<comment> \<open>\<open>main()\<close>: the exit code and everything printed.\<close>
  "main w c =
     (let r = combine_files w (arguments_of c) in
      if success r then
        (0, notices r @ [Dashes, Succeeded (processed r) (lines_total r) (cli_output_file c)])
      else (1, notices r @ [Dashes, FailedToCombine]))"

subsection \<open>Reading the output\<close>

fun block_entries :: "chunk list \<Rightarrow> entry list" where
  \<comment> \<open>The files whose separator blocks a chunk list holds, in order.\<close>
  "block_entries [] = []"
| "block_entries ((SeparatorOf f, t) # cs) = f # block_entries cs"
| "block_entries (c # cs) = block_entries cs"


definition footer_text :: "nat \<Rightarrow> nat \<Rightarrow> string" where
  "footer_text files_done lines_done = out_text (footer_chunks files_done lines_done)"


definition state_of :: "progress \<Rightarrow> combining" where
  \<comment> \<open>The state an iteration or the loop leaves behind.\<close>
  "state_of p = (case p of Continue st \<Rightarrow> st | Raised st \<Rightarrow> st)"



definition file_notice :: "world \<Rightarrow> arguments \<Rightarrow> entry \<Rightarrow> notice" where
  \<comment> \<open>The line a file's iteration prints when no write to the output is refused.\<close>
  "file_notice w a f =
     (case read_file w a f of
        Inr content \<Rightarrow> Processed f (count_list content newline)
      | Inl UnicodeDecodeError \<Rightarrow> SkippedEncoding f
      | Inl ReadError \<Rightarrow> ErrorReading f)"

definition found_notices :: "world \<Rightarrow> arguments \<Rightarrow> notice list" where
  \<comment> \<open>Lines 60-62\<close>
  "found_notices w a =
     [FoundFiles (length (files_to_combine w a)) (sort_method a), OutputPath (output_file a), Dashes]"


definition proper_separators :: "world \<Rightarrow> arguments \<Rightarrow> chunk list \<Rightarrow> bool" where
  \<comment> \<open>Every separator chunk is the separator of its file, as read.\<close>
  "proper_separators w a chunks =
     (\<forall>f t. (SeparatorOf f, t) \<in> set chunks \<longrightarrow>
        (\<exists>content. read_file w a f = Inr content \<and>
           t = separator w f (count_list content newline)))"

text \<open>
  The run in which nothing is refused writes the header, the block of every file that
  can be read, in order, and the footer with the counts of those files.
\<close>

definition readable_block :: "world \<Rightarrow> arguments \<Rightarrow> entry \<Rightarrow> chunk list" where
  "readable_block w a f =
     (case read_file w a f of Inr content \<Rightarrow> block_chunks w f content | Inl e \<Rightarrow> [])"

definition line_count :: "world \<Rightarrow> arguments \<Rightarrow> entry \<Rightarrow> nat" where
  "line_count w a f =
     (case read_file w a f of Inr content \<Rightarrow> count_list content newline | Inl e \<Rightarrow> 0)"

definition expected_output :: "world \<Rightarrow> arguments \<Rightarrow> chunk list" where
  "expected_output w a =
     (let files = files_to_combine w a
      in header_chunks w a files @ concat (map (readable_block w a) files) @
         footer_chunks (length (filter (\<lambda>f. \<not> isl (read_file w a f)) files))
           (sum_list (map (line_count w a) files)))"

definition output_accepts :: "world \<Rightarrow> chunk list \<Rightarrow> bool" where
  \<comment> \<open>No operation on the output file fails when these chunks are written to it in
      order: not the open, not one of the writes, not the close.\<close>
  "output_accepts w chunks =
     (open_ok w \<and> fst (write_chunks w [] chunks) \<and> close_ok w (out_text chunks))"

subsection \<open>Sample worlds\<close>

text \<open>
  Concrete inputs for the theorems below: a file that can be read, with the given
  bytes; a world in which the source directory holds the given entries, the bytes of
  a file decode to themselves and nothing is refused; a codec that encodes ASCII only
  (\<open>--encoding ascii\<close>); a \<open>stdout\<close> that cannot print the marks of the per-file lines;
  the local time across the end of daylight saving time; and a command line with the
  defaults.
\<close>

definition sample_file :: "string list \<Rightarrow> string \<Rightarrow> rat \<Rightarrow> entry" where
  "sample_file path content created =
     \<lparr>rel_path = path, is_regular = True, is_output = False, file_bytes = Some content,
      st_size = length content, st_ctime = created\<rparr>"

definition sample_world :: "entry list \<Rightarrow> world" where
  "sample_world found =
     \<lparr>source_exists = True, source_is_dir = True,
      glob_result = (\<lambda>recursive pattern. found),
      source_absolute = ''/data/in'', now_text = ''2024-05-01 10:00:00'',
      ctime_text = (\<lambda>t. ''2024-04-01 09:00:00''),
      decode = (\<lambda>encoding bytes. bytes),
      open_ok = True, write_ok = (\<lambda>text chunk. True), close_ok = (\<lambda>text. True),
      print_ok = (\<lambda>line. True)\<rparr>"

definition ascii_only :: "string \<Rightarrow> string \<Rightarrow> bool" where
  "ascii_only text chunk = list_all (\<lambda>c. (of_char c :: nat) < 128) chunk"

definition sample_cli :: cli where
  "sample_cli =
     \<lparr>cli_source_dir = ''in'', cli_output_file = ''out.txt'', cli_pattern = ''*'',
      cli_sort_by_name = False, cli_encoding = ''utf-8'', cli_recursive = False\<rparr>"

definition no_marks :: "notice \<Rightarrow> bool" where
  \<comment> \<open>A \<open>stdout\<close> whose encoding lacks U+2713 and U+2717: the three per-file lines
      cannot be printed.\<close>
  "no_marks line =
     (case line of
        Processed f n \<Rightarrow> False
      | SkippedEncoding f \<Rightarrow> False
      | ErrorReading f \<Rightarrow> False
      | _ \<Rightarrow> True)"



section \<open>The renamer: lemmas\<close>

subsection \<open>The pattern\<close>

lemma is_digit_not_dot: "is_digit c \<Longrightarrow> c \<noteq> CHR ''.''"
  by (auto simp: is_digit_def)

lemma is_digit_not_newline: "is_digit c \<Longrightarrow> c \<noteq> newline"
  by (auto simp: is_digit_def newline_def)

lemma digits_to_end_sound:
  assumes "digits_to_end r = Some ds"
  shows "digit_group ds \<and> (r = ds \<or> r = ds @ [newline])"
proof -
  from assms have ds: "ds = takeWhile is_digit r" and ne: "ds \<noteq> []"
    and e: "at_end (dropWhile is_digit r)"
    by (auto simp: digits_to_end_def Let_def split: if_splits)
  have a: "list_all is_digit ds" unfolding ds list_all_iff by (auto dest: set_takeWhileD)
  have r: "r = ds @ dropWhile is_digit r" unfolding ds by simp
  from e have "dropWhile is_digit r = [] \<or> dropWhile is_digit r = [newline]"
    unfolding at_end_def .
  with r have "r = ds \<or> r = ds @ [newline]" by (metis append_Nil2)
  with a ne show ?thesis by (simp add: digit_group_def)
qed

lemma digits_to_end_complete:
  assumes "digit_group ds"
  shows "digits_to_end ds = Some ds"
proof -
  from assms have "\<forall>c\<in>set ds. is_digit c" by (simp add: digit_group_def list_all_iff)
  then have t: "takeWhile is_digit ds = ds" and d: "dropWhile is_digit ds = []" by auto
  from assms have "ds \<noteq> []" by (simp add: digit_group_def)
  then show ?thesis unfolding digits_to_end_def Let_def t d at_end_def by simp
qed

lemma opt_number_sound:
  assumes "opt_number r = Some number"
  shows "\<exists>dotted nl. (nl = [] \<or> nl = [newline]) \<and> r = tail_of number dotted @ nl \<and>
     (case number of None \<Rightarrow> True | Some ds \<Rightarrow> digit_group ds)"
proof (cases "case r of [] \<Rightarrow> None | c # r' \<Rightarrow> if c = CHR ''.'' then digits_to_end r' else None")
  case (Some ds)
  then obtain r' where r: "r = CHR ''.'' # r'" and d: "digits_to_end r' = Some ds"
    by (auto split: list.splits if_splits)
  from Some assms have n: "number = Some ds" by (simp add: opt_number_def)
  from digits_to_end_sound [OF d] show ?thesis
    using r n by (auto simp: tail_of_def intro!: exI [of _ True])
next
  case None
  note first = None
  show ?thesis
  proof (cases "digits_to_end r")
    case (Some ds)
    with first assms have n: "number = Some ds" by (simp add: opt_number_def)
    from digits_to_end_sound [OF Some] show ?thesis
      using n by (auto simp: tail_of_def intro!: exI [of _ False])
  next
    case None
    with first assms have "number = None" "at_end r"
      by (auto simp: opt_number_def split: if_splits)
    then show ?thesis by (auto simp: tail_of_def at_end_def)
  qed
qed

lemma opt_number_complete:
  assumes "case number of None \<Rightarrow> True | Some ds \<Rightarrow> digit_group ds"
  shows "opt_number (tail_of number dotted) = Some number"
proof (cases number)
  case None
  then show ?thesis by (simp add: tail_of_def opt_number_def digits_to_end_def at_end_def)
next
  case (Some ds)
  with assms have g: "digit_group ds" by simp
  then obtain c cs where ds: "ds = c # cs" and c: "is_digit c"
    by (cases ds) (auto simp: digit_group_def)
  show ?thesis
  proof (cases dotted)
    case True
    then show ?thesis using Some digits_to_end_complete [OF g]
      by (simp add: tail_of_def opt_number_def)
  next
    case False
    then show ?thesis using Some digits_to_end_complete [OF g] ds is_digit_not_dot [OF c]
      by (simp add: tail_of_def opt_number_def)
  qed
qed

lemma eq_ci_length: "eq_ci xs ys \<Longrightarrow> length xs = length ys"
  by (auto simp: eq_ci_def dest: map_eq_imp_length_eq)

lemma match_ext_sound:
  assumes "match_ext ext r = Some number"
  shows "\<exists>e tail. r = ''.'' @ e @ tail \<and> eq_ci e ext \<and> opt_number tail = Some number"
proof -
  from assms obtain r' where r: "r = CHR ''.'' # r'" and l: "length ext \<le> length r'"
    and e: "eq_ci (take (length ext) r') ext"
    and t: "opt_number (drop (length ext) r') = Some number"
    by (auto simp: match_ext_def split: list.splits if_splits)
  have "r = ''.'' @ take (length ext) r' @ drop (length ext) r'" using r by simp
  with e t show ?thesis by blast
qed

lemma match_ext_complete:
  assumes "eq_ci e ext" and "opt_number tail = Some number"
  shows "match_ext ext (''.'' @ e @ tail) = Some number"
  using assms eq_ci_length [OF assms(1)] by (simp add: match_ext_def)


lemma try_base_greedy:
  "0 < k \<Longrightarrow> k \<le> n \<Longrightarrow> match_ext ext (drop k name) = Some number \<Longrightarrow>
   (\<forall>j. k < j \<and> j \<le> n \<longrightarrow> match_ext ext (drop j name) = None) \<Longrightarrow>
   try_base ext name n = Some (take k name, number)"
proof (induction n)
  case 0
  then show ?case by simp
next
  case (Suc n)
  show ?case
  proof (cases "k = Suc n")
    case True
    with Suc.prems show ?thesis by simp
  next
    case False
    with Suc.prems have "k \<le> n" and "match_ext ext (drop (Suc n) name) = None" by auto
    with Suc show ?thesis by simp
  qed
qed

lemma name_formI:
  assumes "base \<noteq> []" and "eq_ci e ext"
    and "case number of None \<Rightarrow> True | Some ds \<Rightarrow> digit_group ds"
    and "name = base @ ''.'' @ e @ tail_of number dotted"
  shows "name_form ext base number name"
proof -
  have "take (length ext) (drop (length base + 1) name) = e"
    using assms(4) eq_ci_length [OF assms(2)] by simp
  then show ?thesis
    using assms unfolding name_form_def Let_def
    by (cases number; cases dotted) (simp_all add: tail_of_def)
qed

lemma name_formD:
  assumes "name_form ext base number name"
  shows "base \<noteq> [] \<and> (\<exists>e dotted. eq_ci e ext \<and> name = base @ ''.'' @ e @ tail_of number dotted) \<and>
     (case number of None \<Rightarrow> True | Some ds \<Rightarrow> digit_group ds)"
proof (cases number)
  case None
  with assms show ?thesis
    unfolding name_form_def Let_def tail_of_def by (auto intro: exI [of _ True])
next
  case (Some ds)
  with assms have b: "base \<noteq> []" and g: "digit_group ds"
    and e: "eq_ci (take (length ext) (drop (length base + 1) name)) ext"
    and n: "name = base @ ''.'' @ take (length ext) (drop (length base + 1) name) @ ds \<or>
            name = base @ ''.'' @ take (length ext) (drop (length base + 1) name) @ ''.'' @ ds"
    unfolding name_form_def Let_def by auto
  from n have "\<exists>dotted. name = base @ ''.'' @ take (length ext) (drop (length base + 1) name) @
      tail_of number dotted"
  proof
    assume "name = base @ ''.'' @ take (length ext) (drop (length base + 1) name) @ ds"
    then show ?thesis unfolding Some tail_of_def by (intro exI [of _ False]) simp
  next
    assume "name = base @ ''.'' @ take (length ext) (drop (length base + 1) name) @ ''.'' @ ds"
    then show ?thesis unfolding Some tail_of_def by (intro exI [of _ True]) simp
  qed
  with b g e Some show ?thesis by auto
qed

lemma take_before_newline:
  assumes "j \<le> length (takeWhile (\<lambda>c. c \<noteq> newline) name)"
  shows "newline \<notin> set (take j name)"
proof -
  have "take j name = take j (takeWhile (\<lambda>c. c \<noteq> newline) name @ dropWhile (\<lambda>c. c \<noteq> newline) name)"
    by simp
  also have "\<dots> = take j (takeWhile (\<lambda>c. c \<noteq> newline) name)"
    using assms by (simp del: takeWhile_dropWhile_id)
  finally have "set (take j name) \<subseteq> set (takeWhile (\<lambda>c. c \<noteq> newline) name)"
    by (metis set_take_subset)
  then show ?thesis by (auto dest: set_takeWhileD)
qed

lemma prefix_before_newline:
  assumes "newline \<notin> set base"
  shows "length base \<le> length (takeWhile (\<lambda>c. c \<noteq> newline) (base @ rest))"
proof -
  have "takeWhile (\<lambda>c. c \<noteq> newline) (base @ rest) = base @ takeWhile (\<lambda>c. c \<noteq> newline) rest"
    using assms by (intro takeWhile_append2) auto
  then show ?thesis by simp
qed

lemma tail_of_last:
  assumes "digit_group ds"
  shows "tail_of (Some ds) dotted \<noteq> [] \<and> is_digit (last (tail_of (Some ds) dotted))"
  using assms by (auto simp: tail_of_def digit_group_def list_all_iff)

lemma pattern_match_greedy:
  assumes nf: "name_form ext base number name"
    and nl: "newline \<notin> set base"
    and greedy: "\<forall>b n. name_form ext b n name \<and> newline \<notin> set b \<longrightarrow> length b \<le> length base"
  shows "pattern_match ext name = Some (base, number)"
proof -
  from name_formD [OF nf] obtain e dotted where b: "base \<noteq> []" and e: "eq_ci e ext"
    and name: "name = base @ ''.'' @ e @ tail_of number dotted"
    and g: "case number of None \<Rightarrow> True | Some ds \<Rightarrow> digit_group ds"
    by blast
  let ?K = "length (takeWhile (\<lambda>c. c \<noteq> newline) name)"
  have k0: "0 < length base" "length base \<le> ?K"
    using b prefix_before_newline [OF nl] name by auto
  have here: "match_ext ext (drop (length base) name) = Some number"
    using match_ext_complete [OF e opt_number_complete [OF g]] name by simp
  have later: "match_ext ext (drop j name) = None" if j: "length base < j" "j \<le> ?K" for j
  proof (rule ccontr)
    assume "match_ext ext (drop j name) \<noteq> None"
    then obtain n' where m: "match_ext ext (drop j name) = Some n'" by auto
    from match_ext_sound [OF m] obtain e' tail' where d: "drop j name = ''.'' @ e' @ tail'"
      and e': "eq_ci e' ext" and t': "opt_number tail' = Some n'" by blast
    from opt_number_sound [OF t'] obtain dotted' nl' where
      nl': "nl' = [] \<or> nl' = [newline]" and tail': "tail' = tail_of n' dotted' @ nl'"
      and g': "case n' of None \<Rightarrow> True | Some ds \<Rightarrow> digit_group ds" by blast
    have jl: "j \<le> length name" using j(2) length_takeWhile_le [of _ name] by (meson le_trans)
    define b' where "b' = take j name"
    have lb: "length b' = j" using jl by (simp add: b'_def)
    have "name = b' @ drop j name" by (simp add: b'_def)
    then have split: "name = b' @ ''.'' @ e' @ tail_of n' dotted' @ nl'"
      using d tail' by simp
    have free: "newline \<notin> set b'" unfolding b'_def using j(2) by (rule take_before_newline)
    have ne: "b' \<noteq> []" using j(1) lb by auto
    from nl' show False
    proof
      assume "nl' = []"
      with split have "name = b' @ ''.'' @ e' @ tail_of n' dotted'" by simp
      from name_formI [OF ne e' g' this] greedy free have "length b' \<le> length base"
        by blast
      with j(1) lb show False by simp
    next
      assume n: "nl' = [newline]"
      show False
      proof (cases number)
        case None
        with name have "length name = length base + 1 + length e" by (simp add: tail_of_def)
        moreover from split n have "length name \<ge> length b' + 1 + length e' + 1"
          by simp
        moreover have "length e = length e'"
          using eq_ci_length [OF e] eq_ci_length [OF e'] by simp
        ultimately show False using j(1) lb by simp
      next
        case (Some ds)
        with g have "digit_group ds" by simp
        from tail_of_last [OF this, of dotted] have
          "tail_of number dotted \<noteq> []" "is_digit (last (tail_of number dotted))"
          using Some by auto
        then have "is_digit (last name)" using name by simp
        moreover have "last name = newline" using split n by simp
        ultimately show False using is_digit_not_newline by blast
      qed
    qed
  qed
  have "try_base ext name ?K = Some (take (length base) name, number)"
    using k0 here later by (intro try_base_greedy) auto
  then show ?thesis unfolding pattern_match_def using name by simp
qed


subsection \<open>The folder and the loop\<close>

lemma find_free_spec:
  "\<exists>n\<ge>i. find_free fs stem sfx i = candidate stem sfx n \<and>
          \<not> path_exists fs (candidate stem sfx n) \<and>
          (\<forall>j. i \<le> j \<and> j < n \<longrightarrow> path_exists fs (candidate stem sfx j))"
proof (induction fs stem sfx i rule: find_free.induct)
  case (1 fs stem sfx i)
  show ?case
  proof (cases "path_exists fs (candidate stem sfx i)")
    case False
    then have "find_free fs stem sfx i = candidate stem sfx i"
      by (simp add: find_free.simps [of fs stem sfx i])
    with False show ?thesis by (intro exI [of _ i]) auto
  next
    case True
    then have eq: "find_free fs stem sfx i = find_free fs stem sfx (i + 1)"
      by (simp add: find_free.simps [of fs stem sfx i])
    from True 1 obtain n where n: "i + 1 \<le> n"
      "find_free fs stem sfx (i + 1) = candidate stem sfx n"
      "\<not> path_exists fs (candidate stem sfx n)"
      "\<forall>j. i + 1 \<le> j \<and> j < n \<longrightarrow> path_exists fs (candidate stem sfx j)"
      by blast
    have "\<forall>j. i \<le> j \<and> j < n \<longrightarrow> path_exists fs (candidate stem sfx j)"
    proof (intro allI impI)
      fix j assume "i \<le> j \<and> j < n"
      then have "j = i \<or> (i + 1 \<le> j \<and> j < n)" by auto
      with True n(4) show "path_exists fs (candidate stem sfx j)" by blast
    qed
    with n eq show ?thesis by (intro exI [of _ n]) auto
  qed
qed

lemma resolve_target_free: "\<not> path_exists fs (resolve_target fs name)"
proof (cases "path_exists fs name")
  case True
  from find_free_spec [of 1 fs "path_stem name" "path_suffix name"] True
  show ?thesis by (auto simp: resolve_target_def)
next
  case False
  then show ?thesis by (simp add: resolve_target_def)
qed

lemma path_stem_suffix: "path_stem name @ path_suffix name = name"
  by (simp add: path_stem_def path_suffix_def split: option.splits)





lemma dry_step:
  "rename_step refused old_ext new_ext True st name =
     (if is_file (folder_state st) name \<and> planned_name old_ext new_ext name \<noteq> None
      then st\<lparr>printed := printed st @
                 [Renaming True name (resolve_target (folder_state st) (the (planned_name old_ext new_ext name)))],
              renamed_count := renamed_count st + 1\<rparr>
      else st)"
  by (auto simp: rename_step_def Let_def split: option.splits)

lemma dry_loop:
  "foldl (rename_step refused old_ext new_ext True) st ms =
     st\<lparr>printed := printed st @
           map (\<lambda>name. Renaming True name (resolve_target (folder_state st) (the (planned_name old_ext new_ext name))))
             (filter (\<lambda>name. is_file (folder_state st) name \<and> planned_name old_ext new_ext name \<noteq> None) ms),
        renamed_count := renamed_count st +
           length (filter (\<lambda>name. is_file (folder_state st) name \<and> planned_name old_ext new_ext name \<noteq> None) ms)\<rparr>"
proof (induction ms arbitrary: st)
  case Nil
  then show ?case by simp
next
  case (Cons m ms)
  show ?case
    by (simp only: foldl_Cons Cons.IH) (simp add: dry_step)
qed

lemma planned_name_greedy:
  assumes "name_form (lstrip_dots old_ext) base number name"
    and "newline \<notin> set base"
    and "\<forall>b n. name_form (lstrip_dots old_ext) b n name \<and> newline \<notin> set b \<longrightarrow> length b \<le> length base"
  shows "planned_name old_ext new_ext name =
     Some (case number of
             None \<Rightarrow> base @ ''.'' @ lstrip_dots new_ext
           | Some ds \<Rightarrow> base @ ''.'' @ ds @ ''.'' @ lstrip_dots new_ext)"
proof -
  have m: "pattern_match (lstrip_dots old_ext) name = Some (base, number)"
    using assms by (rule pattern_match_greedy)
  from name_formD [OF assms(1)] have "case number of None \<Rightarrow> True | Some ds \<Rightarrow> digit_group ds"
    by blast
  then show ?thesis
    unfolding planned_name_def m new_name_def
    by (cases number) (simp_all add: digit_group_def)
qed

lemma report_log_example: "planned_name ''log'' ''txt'' ''report.log'' = Some ''report.txt''"
  by code_simp
lemma report_log2_example: "planned_name ''log'' ''txt'' ''report.log2'' = Some ''report.2.txt''"
  by code_simp
lemma report_log_dot_2_example: "planned_name ''log'' ''txt'' ''report.log.2'' = Some ''report.2.txt''"
  by code_simp

lemma step_prints:
  assumes "is_file (folder_state st) name" and "planned_name old_ext new_ext name = Some new"
  shows "take (Suc (length (printed st))) (printed (rename_step refused old_ext new_ext dry_run st name))
     = printed st @ [Renaming dry_run name (resolve_target (folder_state st) new)]"
  using assms by (auto simp: rename_step_def Let_def split: sum.splits)

lemma renamings_append: "renamings (xs @ ys) = renamings xs @ renamings ys"
  by (induction xs rule: renamings.induct) auto











lemma resolve_target_collision:
  assumes "path_exists fs name"
  shows "\<exists>n\<ge>1. resolve_target fs name = path_stem name @ ''_'' @ str_nat n @ path_suffix name \<and>
     (\<forall>j. 1 \<le> j \<and> j < n \<longrightarrow>
        path_exists fs (path_stem name @ ''_'' @ str_nat j @ path_suffix name))"
proof -
  from find_free_spec [of 1 fs "path_stem name" "path_suffix name"] obtain n where n: "1 \<le> n"
    "find_free fs (path_stem name) (path_suffix name) 1 =
       candidate (path_stem name) (path_suffix name) n"
    "\<forall>j. 1 \<le> j \<and> j < n \<longrightarrow> path_exists fs (candidate (path_stem name) (path_suffix name) j)"
    by blast
  from n(2) assms have "resolve_target fs name = path_stem name @ ''_'' @ str_nat n @ path_suffix name"
    by (simp add: resolve_target_def candidate_def)
  with n(1,3) show ?thesis unfolding candidate_def by blast
qed

lemma real_step:
  assumes "is_file (folder_state st) src" and "planned_name old_ext new_ext src = Some new"
    and "\<not> refused src (resolve_target (folder_state st) new)"
  shows "folder_state (rename_step refused old_ext new_ext False st src) =
     (resolve_target (folder_state st) new, RegularFile) #
       filter (\<lambda>e. fst e \<noteq> src \<and> fst e \<noteq> resolve_target (folder_state st) new) (folder_state st)"
  using assms by (simp add: rename_step_def Let_def os_rename_def is_file_def)

lemma step_renaming:
  assumes "is_file (folder_state st) src" and "planned_name old_ext new_ext src = Some new"
  shows "renamings (printed (rename_step refused old_ext new_ext dry_run st src)) =
     renamings (printed st) @ [(src, resolve_target (folder_state st) new)]"
  using assms by (auto simp: rename_step_def Let_def renamings_append split: sum.splits)

lemma step_same_plan:
  "renamings (printed (rename_step refused old_ext new_ext True st name)) =
   renamings (printed (rename_step refused old_ext new_ext False st name))"
  by (auto simp: rename_step_def Let_def renamings_append split: sum.splits option.splits)

lemma ex_collision_1:
  "rename_files (\<lambda>src dst. False)
     (Folder [(''report.log'', RegularFile), (''report.txt'', RegularFile)]) ''log'' ''txt'' False =
   \<lparr>returned = 1,
    folder_after = Folder [(''report_1.txt'', RegularFile), (''report.txt'', RegularFile)],
    stdout = [Renaming False ''report.log'' ''report_1.txt'']\<rparr>"
  by code_simp

lemma ex_collision_2:
  "rename_files (\<lambda>src dst. False)
     (Folder [(''r.LOG'', RegularFile), (''r.log'', RegularFile), (''r_1.txt'', Directory)])
     ''log'' ''txt'' False =
   \<lparr>returned = 2,
    folder_after = Folder [(''r_2.txt'', RegularFile), (''r.txt'', RegularFile), (''r_1.txt'', Directory)],
    stdout = [Renaming False ''r.LOG'' ''r.txt'', Renaming False ''r.log'' ''r_2.txt'']\<rparr>"
  by code_simp

lemma dry_run_outcome:
  "rename_files refused folder old_ext new_ext True =
     \<lparr>returned = length (matched_files folder old_ext new_ext),
      folder_after = folder,
      stdout = (case folder of
                  NoSuchFolder \<Rightarrow> [ErrorNotExist]
                | NotADirectory \<Rightarrow> [ErrorNotDir]
                | Folder fs \<Rightarrow>
                    map (\<lambda>name. Renaming True name
                           (resolve_target fs (the (planned_name old_ext new_ext name))))
                      (matched_files folder old_ext new_ext))\<rparr>"
  by (cases folder) (simp_all add: rename_files_def matched_files_def dry_loop Let_def)

subsection \<open>Stem and suffix\<close>

lemma rfind_dot_last:
  assumes "CHR ''.'' \<notin> set ext"
  shows "rfind_dot (stem @ ''.'' @ ext) = Some (length stem)"
proof -
  have "takeWhile (\<lambda>c. c \<noteq> CHR ''.'') (rev (stem @ ''.'' @ ext)) = rev ext"
    using assms by (auto simp: takeWhile_tail)
  then show ?thesis by (simp add: rfind_dot_def)
qed

lemma path_split_last_dot:
  assumes "stem \<noteq> []" and "ext \<noteq> []" and "CHR ''.'' \<notin> set ext"
  shows "path_stem (stem @ ''.'' @ ext) = stem \<and> path_suffix (stem @ ''.'' @ ext) = ''.'' @ ext"
proof -
  have "rfind_dot (stem @ ''.'' @ ext) = Some (length stem)" using assms(3) by (rule rfind_dot_last)
  then show ?thesis
    unfolding path_stem_def path_suffix_def using assms(1,2) by simp
qed

lemma last_dot_split:
  assumes "CHR ''.'' \<in> set name"
  shows "\<exists>stem ext. name = stem @ ''.'' @ ext \<and> CHR ''.'' \<notin> set ext"
  using split_list_last [OF assms] by auto

lemma path_no_suffix:
  assumes "name = [] \<or> last name = CHR ''.'' \<or> CHR ''.'' \<notin> set (tl name)"
  shows "path_stem name = name \<and> path_suffix name = []"
proof (cases "CHR ''.'' \<in> set name")
  case False
  then show ?thesis by (simp add: path_stem_def path_suffix_def rfind_dot_def)
next
  case True
  from last_dot_split [OF True] obtain stem ext where n: "name = stem @ ''.'' @ ext"
    and e: "CHR ''.'' \<notin> set ext" by blast
  have r: "rfind_dot name = Some (length stem)" unfolding n using e by (rule rfind_dot_last)
  from assms True have "last name = CHR ''.'' \<or> CHR ''.'' \<notin> set (tl name)" by auto
  then have "ext = [] \<or> stem = []"
  proof
    assume "last name = CHR ''.''"
    with n e show ?thesis by (cases ext rule: rev_cases) auto
  next
    assume "CHR ''.'' \<notin> set (tl name)"
    with n show ?thesis by (cases stem) auto
  qed
  then show ?thesis using r n by (auto simp: path_stem_def path_suffix_def)
qed

lemma path_suffix_shape:
  assumes "path_suffix name \<noteq> []"
  shows "\<exists>ext. ext \<noteq> [] \<and> CHR ''.'' \<notin> set ext \<and> path_suffix name = ''.'' @ ext \<and>
     path_stem name \<noteq> [] \<and> name = path_stem name @ ''.'' @ ext"
proof -
  from assms have "CHR ''.'' \<in> set name"
    by (auto simp: path_suffix_def rfind_dot_def split: if_splits)
  from last_dot_split [OF this] obtain stem ext where n: "name = stem @ ''.'' @ ext"
    and e: "CHR ''.'' \<notin> set ext" by blast
  have r: "rfind_dot name = Some (length stem)" unfolding n using e by (rule rfind_dot_last)
  from assms r n have "stem \<noteq> []" "ext \<noteq> []"
    by (auto simp: path_suffix_def split: if_splits)
  with path_split_last_dot [OF this e] n e show ?thesis by auto
qed

lemma candidate_keeps_suffix:
  assumes "path_suffix name \<noteq> []"
  shows "path_suffix (path_stem name @ ''_'' @ str_nat n @ path_suffix name) = path_suffix name \<and>
     path_stem (path_stem name @ ''_'' @ str_nat n @ path_suffix name) = path_stem name @ ''_'' @ str_nat n"
proof -
  from path_suffix_shape [OF assms] obtain ext where e: "ext \<noteq> []" "CHR ''.'' \<notin> set ext"
    "path_suffix name = ''.'' @ ext" by blast
  have "path_stem name @ ''_'' @ str_nat n \<noteq> []" by simp
  from path_split_last_dot [OF this e(1,2)] show ?thesis unfolding e(3) by simp
qed

lemma resolve_target_keeps_suffix:
  assumes "path_suffix name \<noteq> []"
  shows "path_suffix (resolve_target fs name) = path_suffix name"
proof (cases "path_exists fs name")
  case False
  then show ?thesis by (simp add: resolve_target_def)
next
  case True
  from resolve_target_collision [OF True] obtain n where
    "resolve_target fs name = path_stem name @ ''_'' @ str_nat n @ path_suffix name" by blast
  with candidate_keeps_suffix [OF assms, of n] show ?thesis by simp
qed

lemma ex_collision_3:
  "rename_files (\<lambda>src dst. False)
     (Folder [(''a.log'', RegularFile), (''a.tar.gz'', RegularFile)]) ''log'' ''tar.gz'' False =
   \<lparr>returned = 1,
    folder_after = Folder [(''a.tar_1.gz'', RegularFile), (''a.tar.gz'', RegularFile)],
    stdout = [Renaming False ''a.log'' ''a.tar_1.gz'']\<rparr>"
  by code_simp

section \<open>The renamer: claims\<close>

text \<open>
  The names the pattern does handle. A file name that has one of the shapes
  \<open><base>.<oldExt>\<close>, \<open><base>.<oldExt><digits>\<close> or \<open><base>.<oldExt>.<digits>\<close> (extension
  compared without regard to case, after \<open>lstrip('.')\<close>), with a base that holds no
  line feed and is the longest such base, is given the new name \<open><base>.<newExt>\<close> when
  there is no digit group and \<open><base>.<digits>.<newExt>\<close> when there is one; for a
  regular file of the folder this is the name the loop resolves and prints as the
  target. With \<open>log\<close> and \<open>txt\<close>, \<open>report.log\<close> becomes \<open>report.txt\<close>, and \<open>report.log2\<close> and
  \<open>report.log.2\<close> both become \<open>report.2.txt\<close>.
\<close>

theorem rename_pattern_new_name:
  "(\<forall>old_ext new_ext base number name.
      name_form (lstrip_dots old_ext) base number name \<and> newline \<notin> set base \<and>
      (\<forall>b n. name_form (lstrip_dots old_ext) b n name \<and> newline \<notin> set b
             \<longrightarrow> length b \<le> length base)
      \<longrightarrow> planned_name old_ext new_ext name =
            Some (case number of
                    None \<Rightarrow> base @ ''.'' @ lstrip_dots new_ext
                  | Some ds \<Rightarrow> base @ ''.'' @ ds @ ''.'' @ lstrip_dots new_ext)) \<and>
   (\<forall>refused old_ext new_ext dry_run st name new.
      is_file (folder_state st) name \<and> planned_name old_ext new_ext name = Some new
      \<longrightarrow> take (Suc (length (printed st)))
            (printed (rename_step refused old_ext new_ext dry_run st name))
          = printed st @ [Renaming dry_run name (resolve_target (folder_state st) new)]) \<and>
   planned_name ''log'' ''txt'' ''report.log'' = Some ''report.txt'' \<and>
   planned_name ''log'' ''txt'' ''report.log2'' = Some ''report.2.txt'' \<and>
   planned_name ''log'' ''txt'' ''report.log.2'' = Some ''report.2.txt''"
proof (intro conjI allI impI)
  fix old_ext new_ext base number name
  assume "name_form (lstrip_dots old_ext) base number name \<and> newline \<notin> set base \<and>
      (\<forall>b n. name_form (lstrip_dots old_ext) b n name \<and> newline \<notin> set b
             \<longrightarrow> length b \<le> length base)"
  then show "planned_name old_ext new_ext name =
            Some (case number of
                    None \<Rightarrow> base @ ''.'' @ lstrip_dots new_ext
                  | Some ds \<Rightarrow> base @ ''.'' @ ds @ ''.'' @ lstrip_dots new_ext)"
    by (intro planned_name_greedy) auto
next
  fix refused old_ext new_ext dry_run name new and st :: run
  assume "is_file (folder_state st) name \<and> planned_name old_ext new_ext name = Some new"
  then show "take (Suc (length (printed st)))
            (printed (rename_step refused old_ext new_ext dry_run st name))
          = printed st @ [Renaming dry_run name (resolve_target (folder_state st) new)]"
    by (intro step_prints) auto
qed (rule report_log_example report_log2_example report_log_dot_2_example)+

text \<open>
  The theorem at \<open>report.log.2\<close> with the extensions \<open>.log\<close> and \<open>txt\<close>: the base
  \<open>report\<close> is the longest one, since neither of the two later positions holds a dot.
\<close>

theorem rename_pattern_new_name_witness:
  "name_form ''log'' ''report'' (Some ''2'') ''report.log.2'' \<and>
   planned_name ''.log'' ''txt'' ''report.log.2'' = Some ''report.2.txt''"
proof -
  have ext: "lstrip_dots ''.log'' = ''log''" "lstrip_dots ''txt'' = ''txt''"
    by (simp_all add: lstrip_dots_def)
  have form: "name_form ''log'' ''report'' (Some ''2'') ''report.log.2''"
    by (simp add: name_form_def eq_ci_def digit_group_def is_digit_def)
  have free: "newline \<notin> set ''report''" by (simp add: newline_def)
  have greedy: "\<forall>b n. name_form ''log'' b n ''report.log.2'' \<and> newline \<notin> set b
      \<longrightarrow> length b \<le> length ''report''"
  proof (intro allI impI)
    fix b n assume "name_form ''log'' b n ''report.log.2'' \<and> newline \<notin> set b"
    then have nf: "name_form ''log'' b n ''report.log.2''" by simp
    from name_formD [OF nf] obtain e dotted where e: "eq_ci e ''log''"
      and n: "''report.log.2'' = b @ ''.'' @ e @ tail_of n dotted" by blast
    from eq_ci_length [OF e] have le: "length e = 3" by simp
    from arg_cong [OF n, of length] le have "length b \<le> 8" by simp
    moreover from n have "''report.log.2'' ! length b = CHR ''.''"
      by (metis append_Cons nth_append_length)
    ultimately show "length b \<le> length ''report''"
      by (cases "length b = 7"; cases "length b = 8") auto
  qed
  from rename_pattern_new_name have
    "name_form (lstrip_dots ''.log'') ''report'' (Some ''2'') ''report.log.2'' \<and> newline \<notin> set ''report'' \<and>
      (\<forall>b n. name_form (lstrip_dots ''.log'') b n ''report.log.2'' \<and> newline \<notin> set b
             \<longrightarrow> length b \<le> length ''report'')
      \<longrightarrow> planned_name ''.log'' ''txt'' ''report.log.2'' =
            Some (case Some ''2'' of
                    None \<Rightarrow> ''report'' @ ''.'' @ lstrip_dots ''txt''
                  | Some ds \<Rightarrow> ''report'' @ ''.'' @ ds @ ''.'' @ lstrip_dots ''txt'')"
    by blast
  with form free greedy ext show ?thesis by simp
qed

text \<open>
  Claim C1 does not hold of the code for a base that holds a line feed. The name made
  of \<open>a\<close>, a line feed and \<open>b.log\<close> has the shape \<open><base>.log\<close>, but \<open>(.+)\<close> is compiled
  without \<open>re.DOTALL\<close> and matches no line feed: the pattern does not match the name,
  and a run on a folder that holds this file renames nothing and returns 0, where the
  claim gives the new name with \<open>.txt\<close>.
\<close>

theorem line_feed_base_not_renamed:
  "name_form ''log'' (''a'' @ [CHR 0x0A] @ ''b'') None (''a'' @ [CHR 0x0A] @ ''b.log'') \<and>
   planned_name ''log'' ''txt'' (''a'' @ [CHR 0x0A] @ ''b.log'') = None \<and>
   rename_files (\<lambda>src dst. False)
     (Folder [(''a'' @ [CHR 0x0A] @ ''b.log'', RegularFile)]) ''log'' ''txt'' False =
   \<lparr>returned = 0,
    folder_after = Folder [(''a'' @ [CHR 0x0A] @ ''b.log'', RegularFile)],
    stdout = []\<rparr>"
proof (intro conjI)
  show "name_form ''log'' (''a'' @ [CHR 0x0A] @ ''b'') None (''a'' @ [CHR 0x0A] @ ''b.log'')"
    by (simp add: name_form_def eq_ci_def)
  show p: "planned_name ''log'' ''txt'' (''a'' @ [CHR 0x0A] @ ''b.log'') = None"
    by (simp add: planned_name_def pattern_match_def lstrip_dots_def newline_def match_ext_def)
  show "rename_files (\<lambda>src dst. False)
     (Folder [(''a'' @ [CHR 0x0A] @ ''b.log'', RegularFile)]) ''log'' ''txt'' False =
   \<lparr>returned = 0,
    folder_after = Folder [(''a'' @ [CHR 0x0A] @ ''b.log'', RegularFile)],
    stdout = []\<rparr>"
    using p by (simp add: rename_files_def iterdir_def rename_step_def is_file_def)
qed




text \<open>
  Claim C2. When the computed target name does not exist it is used as it is. When it
  exists, the target becomes \<open><stem>_<n><suffix>\<close>, where \<open>n\<close> is the first number from 1
  on whose candidate does not exist; the target used never exists. Stem and suffix
  are those of the computed name: the suffix is the last dot of the name and what
  follows it, the stem what precedes it, when that dot is neither the first nor the
  last character; otherwise the suffix is empty and the stem is the whole name. A
  suffix that is not empty is also the suffix of the target. Each iteration resolves
  against the folder as it is at that moment and, when the rename is not refused,
  moves the file to that target. With \<open>report.txt\<close> present, \<open>report.log\<close> becomes
  \<open>report_1.txt\<close>; with \<open>r.LOG\<close> renamed to \<open>r.txt\<close> earlier in the same run and \<open>r_1.txt\<close>
  present, \<open>r.log\<close> becomes \<open>r_2.txt\<close>; with the new extension \<open>tar.gz\<close> and \<open>a.tar.gz\<close>
  present, \<open>a.log\<close> becomes \<open>a.tar_1.gz\<close>.
\<close>

theorem collision_numbering:
  "(\<not> path_exists fs name \<longrightarrow> resolve_target fs name = name) \<and>
   (path_exists fs name \<longrightarrow>
      (\<exists>n\<ge>1. resolve_target fs name = path_stem name @ ''_'' @ str_nat n @ path_suffix name \<and>
         (\<forall>j. 1 \<le> j \<and> j < n \<longrightarrow>
            path_exists fs (path_stem name @ ''_'' @ str_nat j @ path_suffix name)))) \<and>
   \<not> path_exists fs (resolve_target fs name) \<and>
   path_stem name @ path_suffix name = name \<and>
   (\<forall>stem ext. stem \<noteq> [] \<and> ext \<noteq> [] \<and> CHR ''.'' \<notin> set ext \<longrightarrow>
      path_stem (stem @ ''.'' @ ext) = stem \<and> path_suffix (stem @ ''.'' @ ext) = ''.'' @ ext) \<and>
   (name = [] \<or> last name = CHR ''.'' \<or> CHR ''.'' \<notin> set (tl name) \<longrightarrow>
      path_stem name = name \<and> path_suffix name = []) \<and>
   (path_suffix name \<noteq> [] \<longrightarrow> path_suffix (resolve_target fs name) = path_suffix name) \<and>
   (\<forall>refused old_ext new_ext dry_run st src new.
      is_file (folder_state st) src \<and> planned_name old_ext new_ext src = Some new
      \<longrightarrow> renamings (printed (rename_step refused old_ext new_ext dry_run st src)) =
            renamings (printed st) @ [(src, resolve_target (folder_state st) new)] \<and>
          (\<not> refused src (resolve_target (folder_state st) new)
           \<longrightarrow> folder_state (rename_step refused old_ext new_ext False st src) =
               (resolve_target (folder_state st) new, RegularFile) #
                 filter (\<lambda>e. fst e \<noteq> src \<and> fst e \<noteq> resolve_target (folder_state st) new)
                   (folder_state st))) \<and>
   rename_files (\<lambda>src dst. False)
     (Folder [(''report.log'', RegularFile), (''report.txt'', RegularFile)]) ''log'' ''txt'' False =
   \<lparr>returned = 1,
    folder_after = Folder [(''report_1.txt'', RegularFile), (''report.txt'', RegularFile)],
    stdout = [Renaming False ''report.log'' ''report_1.txt'']\<rparr> \<and>
   rename_files (\<lambda>src dst. False)
     (Folder [(''r.LOG'', RegularFile), (''r.log'', RegularFile), (''r_1.txt'', Directory)])
     ''log'' ''txt'' False =
   \<lparr>returned = 2,
    folder_after = Folder [(''r_2.txt'', RegularFile), (''r.txt'', RegularFile), (''r_1.txt'', Directory)],
    stdout = [Renaming False ''r.LOG'' ''r.txt'', Renaming False ''r.log'' ''r_2.txt'']\<rparr> \<and>
   rename_files (\<lambda>src dst. False)
     (Folder [(''a.log'', RegularFile), (''a.tar.gz'', RegularFile)]) ''log'' ''tar.gz'' False =
   \<lparr>returned = 1,
    folder_after = Folder [(''a.tar_1.gz'', RegularFile), (''a.tar.gz'', RegularFile)],
    stdout = [Renaming False ''a.log'' ''a.tar_1.gz'']\<rparr>"
proof (intro conjI allI impI)
  assume "\<not> path_exists fs name"
  then show "resolve_target fs name = name" by (simp add: resolve_target_def)
next
  assume "path_exists fs name"
  then show "\<exists>n\<ge>1. resolve_target fs name = path_stem name @ ''_'' @ str_nat n @ path_suffix name \<and>
         (\<forall>j. 1 \<le> j \<and> j < n \<longrightarrow>
            path_exists fs (path_stem name @ ''_'' @ str_nat j @ path_suffix name))"
    by (rule resolve_target_collision)
next
  show "\<not> path_exists fs (resolve_target fs name)" by (rule resolve_target_free)
  show "path_stem name @ path_suffix name = name" by (rule path_stem_suffix)
next
  fix stem ext :: string
  assume a: "stem \<noteq> [] \<and> ext \<noteq> [] \<and> CHR ''.'' \<notin> set ext"
  then have "path_stem (stem @ ''.'' @ ext) = stem \<and> path_suffix (stem @ ''.'' @ ext) = ''.'' @ ext"
    by (intro path_split_last_dot) auto
  then show "path_stem (stem @ ''.'' @ ext) = stem" "path_suffix (stem @ ''.'' @ ext) = ''.'' @ ext"
    by auto
next
  assume "name = [] \<or> last name = CHR ''.'' \<or> CHR ''.'' \<notin> set (tl name)"
  from path_no_suffix [OF this] show "path_stem name = name" "path_suffix name = []" by auto
next
  assume "path_suffix name \<noteq> []"
  then show "path_suffix (resolve_target fs name) = path_suffix name"
    by (rule resolve_target_keeps_suffix)
next
  fix refused old_ext new_ext dry_run src new and st :: run
  assume a: "is_file (folder_state st) src \<and> planned_name old_ext new_ext src = Some new"
  then show "renamings (printed (rename_step refused old_ext new_ext dry_run st src)) =
            renamings (printed st) @ [(src, resolve_target (folder_state st) new)]"
    by (intro step_renaming) auto
  assume "\<not> refused src (resolve_target (folder_state st) new)"
  with a show "folder_state (rename_step refused old_ext new_ext False st src) =
               (resolve_target (folder_state st) new, RegularFile) #
                 filter (\<lambda>e. fst e \<noteq> src \<and> fst e \<noteq> resolve_target (folder_state st) new)
                   (folder_state st)"
    by (intro real_step) auto
qed (rule ex_collision_1 ex_collision_2 ex_collision_3)+

text \<open>
  The theorem in a folder that holds \<open>report.txt\<close> and \<open>report_1.txt\<close>: the target for
  \<open>report.txt\<close> is \<open>report_2.txt\<close>.
\<close>

theorem collision_numbering_witness:
  "path_exists [(''report.txt'', RegularFile), (''report_1.txt'', RegularFile)] ''report.txt'' \<and>
   resolve_target [(''report.txt'', RegularFile), (''report_1.txt'', RegularFile)] ''report.txt''
     = ''report_2.txt'' \<and>
   \<not> path_exists [(''report.txt'', RegularFile), (''report_1.txt'', RegularFile)] ''report_2.txt''"
proof -
  let ?fs = "[(''report.txt'', RegularFile), (''report_1.txt'', RegularFile)]"
  have x: "path_exists ?fs ''report.txt''" by (simp add: path_exists_def)
  have st: "path_stem ''report.txt'' = ''report''" "path_suffix ''report.txt'' = ''.txt''"
    by (simp_all add: path_stem_def path_suffix_def rfind_dot_def)
  from collision_numbering [of ?fs "''report.txt''"] x obtain n where n: "1 \<le> n"
    "resolve_target ?fs ''report.txt'' = path_stem ''report.txt'' @ ''_'' @ str_nat n @ path_suffix ''report.txt''"
    "\<forall>j. 1 \<le> j \<and> j < n \<longrightarrow>
        path_exists ?fs (path_stem ''report.txt'' @ ''_'' @ str_nat j @ path_suffix ''report.txt'')"
    by blast
  from collision_numbering [of ?fs "''report.txt''"]
  have free: "\<not> path_exists ?fs (resolve_target ?fs ''report.txt'')" by blast
  have s1: "str_nat 1 = ''1''" and s2: "str_nat 2 = ''2''"
    by code_simp+
  have "n \<noteq> 1"
  proof
    assume "n = 1"
    with n(2) free st s1 show False by (simp add: path_exists_def)
  qed
  moreover have "\<not> 2 < n"
  proof
    assume "2 < n"
    with n(3) have "path_exists ?fs (path_stem ''report.txt'' @ ''_'' @ str_nat 2 @ path_suffix ''report.txt'')"
      by simp
    with st s2 show False by (simp add: path_exists_def)
  qed
  ultimately have "n = 2" using n(1) by simp
  with n(2) st s2 have "resolve_target ?fs ''report.txt'' = ''report_2.txt''" by simp
  with x free show ?thesis by simp
qed

text \<open>
  Claim C3. With \<open>dry_run=True\<close> the folder after the run is the folder before it,
  whatever it holds and however many files match (a missing folder and a path that is
  no directory included). The count returned is the number of listed regular files
  that match, and the lines printed are, for each of them in sorted order, the rename
  it would get: the same pattern match, the same new name and the same collision
  resolution as in a real run, taken on the untouched folder. In any state, the dry
  iteration announces the rename the real iteration announces and leaves the folder
  as it is.
\<close>

theorem dry_run_no_mutation:
  "folder_after (rename_files refused folder old_ext new_ext True) = folder \<and>
   returned (rename_files refused folder old_ext new_ext True) =
     length (matched_files folder old_ext new_ext) \<and>
   stdout (rename_files refused folder old_ext new_ext True) =
     (case folder of
        NoSuchFolder \<Rightarrow> [ErrorNotExist]
      | NotADirectory \<Rightarrow> [ErrorNotDir]
      | Folder fs \<Rightarrow>
          map (\<lambda>name. Renaming True name
                 (resolve_target fs (the (planned_name old_ext new_ext name))))
            (matched_files folder old_ext new_ext)) \<and>
   (\<forall>st name. renamings (printed (rename_step refused old_ext new_ext True st name)) =
               renamings (printed (rename_step refused old_ext new_ext False st name)) \<and>
              folder_state (rename_step refused old_ext new_ext True st name) = folder_state st)"
proof (intro conjI allI)
  fix st :: run and name
  show "renamings (printed (rename_step refused old_ext new_ext True st name)) =
               renamings (printed (rename_step refused old_ext new_ext False st name))"
    by (rule step_same_plan)
  show "folder_state (rename_step refused old_ext new_ext True st name) = folder_state st"
    by (simp add: dry_step)
qed (simp_all add: dry_run_outcome)

text \<open>
  The theorem on a folder of five entries, two of which are regular files that match.
\<close>

theorem dry_run_no_mutation_witness:
  "rename_files (\<lambda>src dst. False)
     (Folder [(''report.log'', RegularFile), (''notes.md'', RegularFile), (''old.LOG3'', RegularFile),
              (''sub.log'', Directory), (''report.txt'', RegularFile)]) ''log'' ''txt'' True =
   \<lparr>returned = 2,
    folder_after = Folder [(''report.log'', RegularFile), (''notes.md'', RegularFile),
              (''old.LOG3'', RegularFile), (''sub.log'', Directory), (''report.txt'', RegularFile)],
    stdout = [Renaming True ''old.LOG3'' ''old.3.txt'', Renaming True ''report.log'' ''report_1.txt'']\<rparr>"
proof -
  let ?f = "Folder [(''report.log'', RegularFile), (''notes.md'', RegularFile), (''old.LOG3'', RegularFile),
              (''sub.log'', Directory), (''report.txt'', RegularFile)]"
  let ?r = "rename_files (\<lambda>src dst. False) ?f ''log'' ''txt'' True"
  have m: "matched_files ?f ''log'' ''txt'' = [''old.LOG3'', ''report.log'']" by code_simp
  have t: "map (\<lambda>name. Renaming True name
                 (resolve_target [(''report.log'', RegularFile), (''notes.md'', RegularFile), (''old.LOG3'', RegularFile),
              (''sub.log'', Directory), (''report.txt'', RegularFile)] (the (planned_name ''log'' ''txt'' name))))
            [''old.LOG3'', ''report.log''] =
      [Renaming True ''old.LOG3'' ''old.3.txt'', Renaming True ''report.log'' ''report_1.txt'']"
    by code_simp
  from dry_run_no_mutation [of "\<lambda>src dst. False" ?f "''log''" "''txt''"]
  have "folder_after ?r = ?f" "returned ?r = length (matched_files ?f ''log'' ''txt'')"
    "stdout ?r = map (\<lambda>name. Renaming True name
                 (resolve_target [(''report.log'', RegularFile), (''notes.md'', RegularFile), (''old.LOG3'', RegularFile),
              (''sub.log'', Directory), (''report.txt'', RegularFile)] (the (planned_name ''log'' ''txt'' name))))
            (matched_files ?f ''log'' ''txt'')"
    by simp_all
  then have "folder_after ?r = ?f" "returned ?r = 2"
    "stdout ?r = [Renaming True ''old.LOG3'' ''old.3.txt'', Renaming True ''report.log'' ''report_1.txt'']"
    unfolding m t by simp_all
  then show ?thesis by (cases ?r) simp
qed

section \<open>The combiner: lemmas\<close>

subsection \<open>Writes\<close>

lemma write_chunks_True:
  "write_chunks w sofar cs = (True, out) \<Longrightarrow> out = sofar @ cs"
proof (induction cs arbitrary: sofar)
  case Nil
  then show ?case by simp
next
  case (Cons c cs)
  then have "write_chunks w (sofar @ [c]) cs = (True, out)" by (simp split: if_splits)
  from Cons.IH [OF this] show ?case by simp
qed


lemma write_chunks_fst:
  "fst (write_chunks w sofar cs) \<Longrightarrow> write_chunks w sofar cs = (True, sofar @ cs)"
  using write_chunks_True [of w sofar cs] by (cases "write_chunks w sofar cs") auto

lemma write_chunks_append:
  "fst (write_chunks w sofar (xs @ ys)) \<longleftrightarrow>
     fst (write_chunks w sofar xs) \<and> fst (write_chunks w (sofar @ xs) ys)"
  by (induction xs arbitrary: sofar) auto

lemma out_text_append: "out_text (xs @ ys) = out_text xs @ out_text ys"
  by (simp add: out_text_def)

subsection \<open>One iteration\<close>

lemma state_of_simps [simp]: "state_of (Continue st) = st" "state_of (Raised st) = st"
  by (simp_all add: state_of_def)

lemma read_file_decodes: "read_file w a f \<noteq> Inl UnicodeDecodeError"
  by (simp add: read_file_def split: option.splits)




subsection \<open>The loop\<close>



subsection \<open>The run\<close>


subsection \<open>The order of the blocks\<close>


lemma block_entries_header [simp]: "block_entries (header_chunks w a files) = []"
  by (simp add: header_chunks_def)

















subsection \<open>Separators and blocks\<close>




lemma proper_separators_header [simp]: "proper_separators w a (header_chunks w a files)"
  by (auto simp: proper_separators_def header_chunks_def)

lemma proper_separators_footer [simp]: "proper_separators w a (footer_chunks p l)"
  by (auto simp: proper_separators_def footer_chunks_def)











subsection \<open>Counts, failures and the footer\<close>

lemma combine_files_success:
  assumes "success (combine_files w a)"
  shows "\<exists>chunks body. out_file (combine_files w a) = Some chunks \<and>
     out_text chunks = body @
       footer_text (processed (combine_files w a)) (lines_total (combine_files w a))"
proof -
  let ?files = "files_to_combine w a"
  from assms have run: "source_exists w" "source_is_dir w" "?files \<noteq> []" "open_ok w"
    by (auto simp: combine_files_def Let_def split: if_splits)
  obtain hb hout where h: "write_chunks w [] (header_chunks w a ?files) = (hb, hout)"
    by (cases "write_chunks w [] (header_chunks w a ?files)") auto
  from assms run h have hb: "hb" by (cases hb) (auto simp: combine_files_def Let_def)
  obtain p where p: "process_files w a
      \<lparr>written = hout, files_processed = 0, total_lines = 0,
       messages = [FoundFiles (length ?files) (sort_method a), OutputPath (output_file a), Dashes],
       counted = []\<rparr> ?files = p" by simp
  from assms run h hb p obtain st where st: "p = Continue st"
    by (cases p) (auto simp: combine_files_def Let_def)
  obtain fb fout where f: "write_chunks w (written st)
      (footer_chunks (files_processed st) (total_lines st)) = (fb, fout)"
    by (cases "write_chunks w (written st)
      (footer_chunks (files_processed st) (total_lines st))") auto
  from assms run h hb p st f have fb: "fb"
    by (cases fb) (auto simp: combine_files_def Let_def)
  from run h hb p st f fb have r: "out_file (combine_files w a) = Some fout"
    "processed (combine_files w a) = files_processed st"
    "lines_total (combine_files w a) = total_lines st"
    by (auto simp: combine_files_def Let_def)
  from f fb have "write_chunks w (written st)
      (footer_chunks (files_processed st) (total_lines st)) = (True, fout)" by simp
  from write_chunks_True [OF this]
  have "out_text fout = out_text (written st) @
      footer_text (files_processed st) (total_lines st)"
    by (simp add: out_text_append footer_text_def)
  with r show ?thesis by auto
qed

lemma combine_files_nothing:
  assumes "\<not> source_exists w \<or> \<not> source_is_dir w \<or> files_to_combine w a = []"
  shows "processed (combine_files w a) = 0 \<and> lines_total (combine_files w a) = 0 \<and>
     \<not> success (combine_files w a) \<and> out_file (combine_files w a) = None \<and>
     notices (combine_files w a) =
       (if \<not> source_exists w then [DirMissing (source_dir a)]
        else if \<not> source_is_dir w then [DirNotDir (source_dir a)]
        else [NoFilesFound (file_pattern a) (source_dir a)])"
  using assms by (auto simp: combine_files_def Let_def)

lemma no_regular_file:
  assumes "\<forall>f \<in> set (glob_result w (recursive a) (file_pattern a)). \<not> is_regular f"
  shows "files_to_combine w a = []"
proof -
  have "filter (\<lambda>f. is_regular f \<and> \<not> is_output f) (glob_result w (recursive a) (file_pattern a)) = []"
    using assms by (auto simp: filter_empty_conv)
  then show ?thesis by (simp add: files_to_combine_def)
qed

lemma main_exit_code:
  "fst (main w c) = (if success (combine_files w (arguments_of c)) then 0 else 1)"
  by (simp add: main_def Let_def)

subsection \<open>The run in which nothing is refused\<close>

lemma process_file_accepted:
  fixes st :: combining
  assumes "fst (write_chunks w (written st) (readable_block w a f))"
    and "print_ok w (file_notice w a f)"
  shows "process_file w a st f =
     Continue (st\<lparr>written := written st @ readable_block w a f,
                 files_processed := files_processed st + length (filter (\<lambda>f. \<not> isl (read_file w a f)) [f]),
                 total_lines := total_lines st + line_count w a f,
                 messages := messages st @ [file_notice w a f],
                 counted := counted st @ filter (\<lambda>f. \<not> isl (read_file w a f)) [f]\<rparr>)"
proof (cases "read_file w a f")
  case (Inl e)
  with assms(2) show ?thesis
    by (cases e)
      (simp_all add: process_file_def handler_prints_def file_notice_def readable_block_def
        line_count_def)
next
  case (Inr content)
  with assms(1) have "fst (write_chunks w (written st) (block_chunks w f content))"
    by (simp add: readable_block_def)
  from write_chunks_fst [OF this] Inr assms(2) show ?thesis
    by (simp add: process_file_def handler_prints_def file_notice_def readable_block_def
        line_count_def Let_def)
qed

lemma process_files_accepted:
  fixes st :: combining
  assumes "fst (write_chunks w (written st) (concat (map (readable_block w a) files)))"
    and "\<forall>f \<in> set files. print_ok w (file_notice w a f)"
  shows "process_files w a st files =
     Continue (st\<lparr>written := written st @ concat (map (readable_block w a) files),
                 files_processed := files_processed st +
                   length (filter (\<lambda>f. \<not> isl (read_file w a f)) files),
                 total_lines := total_lines st + sum_list (map (line_count w a) files),
                 messages := messages st @ map (file_notice w a) files,
                 counted := counted st @ filter (\<lambda>f. \<not> isl (read_file w a f)) files\<rparr>)"
  using assms
proof (induction files arbitrary: st)
  case Nil
  then show ?case by simp
next
  case (Cons f files)
  define st' where "st' = st\<lparr>written := written st @ readable_block w a f,
      files_processed := files_processed st + length (filter (\<lambda>f. \<not> isl (read_file w a f)) [f]),
      total_lines := total_lines st + line_count w a f,
      messages := messages st @ [file_notice w a f],
      counted := counted st @ filter (\<lambda>f. \<not> isl (read_file w a f)) [f]\<rparr>"
  from Cons.prems(1) have
    "fst (write_chunks w (written st) (readable_block w a f @ concat (map (readable_block w a) files)))"
    by simp
  then have w1: "fst (write_chunks w (written st) (readable_block w a f))"
    and w2: "fst (write_chunks w (written st @ readable_block w a f)
        (concat (map (readable_block w a) files)))"
    unfolding write_chunks_append by simp_all
  from Cons.prems(2) have p1: "print_ok w (file_notice w a f)"
    and p2: "\<forall>f \<in> set files. print_ok w (file_notice w a f)" by simp_all
  from process_file_accepted [OF w1 p1] have s: "process_file w a st f = Continue st'"
    by (simp add: st'_def)
  from w2 have "fst (write_chunks w (written st') (concat (map (readable_block w a) files)))"
    by (simp add: st'_def)
  from Cons.IH [OF this p2] s show ?case by (simp add: st'_def)
qed

lemma filter_readable_length:
  "length (filter (\<lambda>f. \<not> isl (read_file w a f)) files) =
     length files - length (filter (\<lambda>f. isl (read_file w a f)) files)"
  using sum_length_filter_compl [of "\<lambda>f. isl (read_file w a f)" files] by simp

lemma combine_files_accepted:
  assumes "source_exists w" "source_is_dir w" "files_to_combine w a \<noteq> []"
    and "output_accepts w (expected_output w a)"
    and "\<forall>f \<in> set (files_to_combine w a). print_ok w (file_notice w a f)"
  shows "combine_files w a =
     \<lparr>processed = length (filter (\<lambda>f. \<not> isl (read_file w a f)) (files_to_combine w a)),
      lines_total = sum_list (map (line_count w a) (files_to_combine w a)),
      success = True,
      out_file = Some (expected_output w a),
      notices = found_notices w a @ map (file_notice w a) (files_to_combine w a),
      counted_files = filter (\<lambda>f. \<not> isl (read_file w a f)) (files_to_combine w a)\<rparr>"
proof -
  let ?files = "files_to_combine w a"
  let ?header = "header_chunks w a ?files"
  let ?blocks = "concat (map (readable_block w a) ?files)"
  let ?footer = "footer_chunks (length (filter (\<lambda>f. \<not> isl (read_file w a f)) ?files))
      (sum_list (map (line_count w a) ?files))"
  have e: "expected_output w a = ?header @ ?blocks @ ?footer"
    by (simp add: expected_output_def Let_def)
  from assms(4) have o: "open_ok w" and c: "close_ok w (out_text (expected_output w a))"
    and "fst (write_chunks w [] (?header @ ?blocks @ ?footer))"
    unfolding output_accepts_def e by simp_all
  then have w1: "fst (write_chunks w [] ?header)"
    and "fst (write_chunks w ?header (?blocks @ ?footer))"
    unfolding write_chunks_append by simp_all
  then have w2: "fst (write_chunks w ?header ?blocks)"
    and w3: "fst (write_chunks w (?header @ ?blocks) ?footer)"
    unfolding write_chunks_append by simp_all
  from write_chunks_fst [OF w1] have h: "write_chunks w [] ?header = (True, ?header)" by simp
  from write_chunks_fst [OF w3]
  have f: "write_chunks w (?header @ ?blocks) ?footer = (True, expected_output w a)"
    by (simp add: e)
  define init where "init = \<lparr>written = ?header, files_processed = 0, total_lines = 0,
      messages = [FoundFiles (length ?files) (sort_method a), OutputPath (output_file a), Dashes],
      counted = []\<rparr>"
  from w2 have "fst (write_chunks w (written init) ?blocks)" by (simp add: init_def)
  from process_files_accepted [OF this assms(5)]
  have l: "process_files w a init ?files =
     Continue \<lparr>written = ?header @ ?blocks,
       files_processed = length (filter (\<lambda>f. \<not> isl (read_file w a f)) ?files),
       total_lines = sum_list (map (line_count w a) ?files),
       messages = found_notices w a @ map (file_notice w a) ?files,
       counted = filter (\<lambda>f. \<not> isl (read_file w a f)) ?files\<rparr>"
    by (simp add: init_def found_notices_def)
  from assms(1-3) o h l f c show ?thesis
    unfolding init_def by (simp add: combine_files_def Let_def)
qed

lemma read_error_skipped:
  fixes st :: combining
  assumes "isl (read_file w a f)"
  shows "written (state_of (process_file w a st f)) = written st"
    and "files_processed (state_of (process_file w a st f)) = files_processed st"
    and "total_lines (state_of (process_file w a st f)) = total_lines st"
    and "counted (state_of (process_file w a st f)) = counted st"
    and "print_ok w (file_notice w a f) \<Longrightarrow>
       process_file w a st f = Continue (st\<lparr>messages := messages st @ [file_notice w a f]\<rparr>)"
    and "file_notice w a f = ErrorReading f"
proof -
  from assms read_file_decodes [of w a f] have r: "read_file w a f = Inl ReadError"
    by (cases "read_file w a f"; simp) (metis read_error.exhaust)
  then have p: "process_file w a st f = handler_prints w st (ErrorReading f)"
    by (simp add: process_file_def)
  from r show n: "file_notice w a f = ErrorReading f" by (simp add: file_notice_def)
  from p show "written (state_of (process_file w a st f)) = written st"
    and "files_processed (state_of (process_file w a st f)) = files_processed st"
    and "total_lines (state_of (process_file w a st f)) = total_lines st"
    and "counted (state_of (process_file w a st f)) = counted st"
    by (simp_all add: handler_prints_def)
  assume "print_ok w (file_notice w a f)"
  with p n show "process_file w a st f = Continue (st\<lparr>messages := messages st @ [file_notice w a f]\<rparr>)"
    by (simp add: handler_prints_def)
qed

lemmas combiner_eval =
  combine_files_def files_to_combine_def header_chunks_def footer_chunks_def process_file_def
  handler_prints_def read_file_def block_chunks_def sample_world_def sample_file_def
  sample_cli_def arguments_of_def sort_method_def ascii_only_def out_text_def main_def
  found_notices_def file_notice_def Let_def

section \<open>The combiner: claims\<close>

text \<open>
  Claim C7. When the source directory does not exist, is not a directory, or no file
  is left to combine (in particular when the pattern yields no regular file),
  \<open>combine_files\<close> returns \<open>(0, 0, False)\<close>, does not open the output file, and prints the
  line that names the failure; \<open>main\<close> then prints the failure line and returns 1. The
  exit code is 0 exactly when \<open>combine_files\<close> reports success, and 1 otherwise.
\<close>

theorem no_input_fails:
  "(\<not> source_exists w \<or> \<not> source_is_dir w \<or> files_to_combine w a = [] \<longrightarrow>
      processed (combine_files w a) = 0 \<and> lines_total (combine_files w a) = 0 \<and>
      \<not> success (combine_files w a) \<and> out_file (combine_files w a) = None \<and>
      notices (combine_files w a) =
        (if \<not> source_exists w then [DirMissing (source_dir a)]
         else if \<not> source_is_dir w then [DirNotDir (source_dir a)]
         else [NoFilesFound (file_pattern a) (source_dir a)])) \<and>
   ((\<forall>f \<in> set (glob_result w (recursive a) (file_pattern a)). \<not> is_regular f) \<longrightarrow>
      files_to_combine w a = []) \<and>
   (\<not> source_exists w \<or> \<not> source_is_dir w \<or> files_to_combine w (arguments_of c) = [] \<longrightarrow>
      main w c = (1, notices (combine_files w (arguments_of c)) @ [Dashes, FailedToCombine])) \<and>
   (fst (main w c) = 0 \<longleftrightarrow> success (combine_files w (arguments_of c))) \<and>
   (fst (main w c) = 0 \<or> fst (main w c) = 1)"
proof (intro conjI impI)
  assume "\<not> source_exists w \<or> \<not> source_is_dir w \<or> files_to_combine w a = []"
  from combine_files_nothing [OF this]
  show "processed (combine_files w a) = 0" "lines_total (combine_files w a) = 0"
    "\<not> success (combine_files w a)" "out_file (combine_files w a) = None"
    "notices (combine_files w a) =
        (if \<not> source_exists w then [DirMissing (source_dir a)]
         else if \<not> source_is_dir w then [DirNotDir (source_dir a)]
         else [NoFilesFound (file_pattern a) (source_dir a)])"
    by simp_all
next
  assume "\<forall>f \<in> set (glob_result w (recursive a) (file_pattern a)). \<not> is_regular f"
  then show "files_to_combine w a = []" by (rule no_regular_file)
next
  assume "\<not> source_exists w \<or> \<not> source_is_dir w \<or> files_to_combine w (arguments_of c) = []"
  from combine_files_nothing [OF this]
  show "main w c = (1, notices (combine_files w (arguments_of c)) @ [Dashes, FailedToCombine])"
    by (simp add: main_def Let_def)
next
  show "fst (main w c) = 0 \<longleftrightarrow> success (combine_files w (arguments_of c))"
    by (simp add: main_exit_code)
  show "fst (main w c) = 0 \<or> fst (main w c) = 1" by (simp add: main_exit_code)
qed

text \<open>
  The theorem in a source directory whose only match is a subdirectory.
\<close>

theorem no_input_fails_witness:
  "files_to_combine (sample_world [(sample_file [''sub''] [] 1)\<lparr>is_regular := False\<rparr>])
     (arguments_of sample_cli) = [] \<and>
   main (sample_world [(sample_file [''sub''] [] 1)\<lparr>is_regular := False\<rparr>]) sample_cli =
     (1, [NoFilesFound ''*'' ''in'', Dashes, FailedToCombine]) \<and>
   out_file (combine_files (sample_world [(sample_file [''sub''] [] 1)\<lparr>is_regular := False\<rparr>])
     (arguments_of sample_cli)) = None"
proof -
  let ?w = "sample_world [(sample_file [''sub''] [] 1)\<lparr>is_regular := False\<rparr>]"
  let ?a = "arguments_of sample_cli"
  have e: "files_to_combine ?w ?a = []" by (simp add: combiner_eval)
  have s: "source_exists ?w" "source_is_dir ?w" by (simp_all add: sample_world_def)
  have p: "file_pattern ?a = ''*''" "source_dir ?a = ''in''"
    by (simp_all add: arguments_of_def sample_cli_def)
  from no_input_fails [of ?w ?a sample_cli] e have
    "notices (combine_files ?w ?a) =
        (if \<not> source_exists ?w then [DirMissing (source_dir ?a)]
         else if \<not> source_is_dir ?w then [DirNotDir (source_dir ?a)]
         else [NoFilesFound (file_pattern ?a) (source_dir ?a)])"
    "out_file (combine_files ?w ?a) = None"
    "main ?w sample_cli = (1, notices (combine_files ?w ?a) @ [Dashes, FailedToCombine])"
    by blast+
  with e s p show ?thesis by simp
qed

text \<open>
  Claim C5, as amended. When the run reports success, the text of the output file ends
  with the footer block, and the numbers after \<open>Files processed:\<close> and \<open>Total lines:\<close>
  in it are the two counts returned to the caller.
\<close>

theorem footer_matches_result:
  "(success (combine_files w a) \<longrightarrow>
      (\<exists>chunks body. out_file (combine_files w a) = Some chunks \<and>
         out_text chunks = body @
           footer_text (processed (combine_files w a)) (lines_total (combine_files w a)))) \<and>
   footer_text files_done lines_done =
     [newline] @ rule80 @ [newline] @
     ''End of combined file'' @ [newline] @
     ''Files processed: '' @ str_nat files_done @ [newline] @
     ''Total lines: '' @ str_nat lines_done @ [newline] @
     ''='' @ rule80 @ [newline]"
proof (intro conjI impI)
  assume "success (combine_files w a)"
  then show "\<exists>chunks body. out_file (combine_files w a) = Some chunks \<and>
         out_text chunks = body @
           footer_text (processed (combine_files w a)) (lines_total (combine_files w a))"
    by (rule combine_files_success)
next
  show "footer_text files_done lines_done =
     [newline] @ rule80 @ [newline] @
     ''End of combined file'' @ [newline] @
     ''Files processed: '' @ str_nat files_done @ [newline] @
     ''Total lines: '' @ str_nat lines_done @ [newline] @
     ''='' @ rule80 @ [newline]"
    by (simp add: footer_text_def footer_chunks_def out_text_def)
qed

text \<open>
  The theorem on a directory with one file of two lines, the second without a line
  feed.
\<close>

theorem footer_matches_result_witness:
  "success (combine_files (sample_world [sample_file [''a.txt''] (''one'' @ [newline] @ ''two'') 1])
     (arguments_of sample_cli)) \<and>
   (\<exists>chunks body.
      out_file (combine_files (sample_world [sample_file [''a.txt''] (''one'' @ [newline] @ ''two'') 1])
        (arguments_of sample_cli)) = Some chunks \<and>
      out_text chunks = body @ footer_text 1 1)"
proof -
  let ?r = "combine_files (sample_world [sample_file [''a.txt''] (''one'' @ [newline] @ ''two'') 1])
     (arguments_of sample_cli)"
  have s: "success ?r" and p: "processed ?r = 1" and l: "lines_total ?r = 1"
    by (simp_all add: combiner_eval newline_def)
  from footer_matches_result [of "sample_world [sample_file [''a.txt''] (''one'' @ [newline] @ ''two'') 1]"
      "arguments_of sample_cli"] s
  have "\<exists>chunks body. out_file ?r = Some chunks \<and>
         out_text chunks = body @ footer_text (processed ?r) (lines_total ?r)" by blast
  with s p l show ?thesis by simp
qed

text \<open>
  Claim C5 as stated fails for a run that a write to the output ends: with
  \<open>--encoding ascii\<close> and a source directory whose absolute path holds \<open>0xE9\<close>, the second
  header line cannot be encoded, the run returns \<open>(0, 0, False)\<close>, and the output file
  holds the first header line and no footer.
\<close>

theorem footer_missing_counterexample:
  "\<not> success (combine_files
       ((sample_world [sample_file [''a.txt''] ''one'' 1])
          \<lparr>source_absolute := ''/data/caf'' @ [CHR 0xE9], write_ok := ascii_only\<rparr>)
       (arguments_of sample_cli)) \<and>
   processed (combine_files
       ((sample_world [sample_file [''a.txt''] ''one'' 1])
          \<lparr>source_absolute := ''/data/caf'' @ [CHR 0xE9], write_ok := ascii_only\<rparr>)
       (arguments_of sample_cli)) = 0 \<and>
   lines_total (combine_files
       ((sample_world [sample_file [''a.txt''] ''one'' 1])
          \<lparr>source_absolute := ''/data/caf'' @ [CHR 0xE9], write_ok := ascii_only\<rparr>)
       (arguments_of sample_cli)) = 0 \<and>
   out_file (combine_files
       ((sample_world [sample_file [''a.txt''] ''one'' 1])
          \<lparr>source_absolute := ''/data/caf'' @ [CHR 0xE9], write_ok := ascii_only\<rparr>)
       (arguments_of sample_cli)) =
     Some [(HeaderPart, ''Combined file created: 2024-05-01 10:00:00'' @ [CHR 0x0A])] \<and>
   \<not> (\<exists>body. ''Combined file created: 2024-05-01 10:00:00'' @ [CHR 0x0A] = body @ footer_text 0 0)"
proof (intro conjI)
  let ?w = "(sample_world [sample_file [''a.txt''] ''one'' 1])
          \<lparr>source_absolute := ''/data/caf'' @ [CHR 0xE9], write_ok := ascii_only\<rparr>"
  show "\<not> success (combine_files ?w (arguments_of sample_cli))"
    by (simp add: combiner_eval newline_def)
  show "processed (combine_files ?w (arguments_of sample_cli)) = 0"
    by (simp add: combiner_eval newline_def)
  show "lines_total (combine_files ?w (arguments_of sample_cli)) = 0"
    by (simp add: combiner_eval newline_def)
  show "out_file (combine_files ?w (arguments_of sample_cli)) =
     Some [(HeaderPart, ''Combined file created: 2024-05-01 10:00:00'' @ [CHR 0x0A])]"
    by (simp add: combiner_eval newline_def)
  show "\<not> (\<exists>body. ''Combined file created: 2024-05-01 10:00:00'' @ [CHR 0x0A] = body @ footer_text 0 0)"
  proof
    assume "\<exists>body. ''Combined file created: 2024-05-01 10:00:00'' @ [CHR 0x0A] = body @ footer_text 0 0"
    then obtain body where
      "''Combined file created: 2024-05-01 10:00:00'' @ [CHR 0x0A] = body @ footer_text 0 0" by blast
    from arg_cong [OF this, of length] show False
      by (simp add: footer_text_def footer_chunks_def out_text_def rule80_def)
  qed
qed







text \<open>
  Claim C4, as amended. Take a run in which no operation on the output file fails (it
  can be opened, it accepts in turn every write of the header, of the blocks of the
  files that can be read and of the footer, and it can be closed) and in which the
  line of every file can be printed. Then the count of files processed that is
  returned equals \<open>N\<close> minus the number of files whose read raised an error, where \<open>N\<close>
  is the number of regular files that the pattern yields other than the output file
  itself; the output file holds the header, the blocks of the files that could be
  read and the footer; every file gets its own line, in order; and the run reports
  success. The reads that raise are those of the files that cannot be opened or read
  (decoding raises nothing). In any run, nothing is written for a file whose read
  raises and no count changes; when its line \<open>Error reading\<close> can be printed, the
  loop goes on with the next file.
\<close>

theorem processed_count:
  "(source_exists w \<and> source_is_dir w \<and> output_accepts w (expected_output w a) \<and>
    (\<forall>f \<in> set (files_to_combine w a). print_ok w (file_notice w a f)) \<longrightarrow>
      processed (combine_files w a) =
        length (files_to_combine w a) -
        length (filter (\<lambda>f. isl (read_file w a f)) (files_to_combine w a)) \<and>
      (files_to_combine w a \<noteq> [] \<longrightarrow>
         success (combine_files w a) \<and>
         out_file (combine_files w a) = Some (expected_output w a) \<and>
         notices (combine_files w a) =
           found_notices w a @ map (file_notice w a) (files_to_combine w a))) \<and>
   (\<forall>f. isl (read_file w a f) \<longleftrightarrow> file_bytes f = None) \<and>
   (\<forall>st f. isl (read_file w a f) \<longrightarrow>
      file_notice w a f = ErrorReading f \<and>
      written (state_of (process_file w a st f)) = written st \<and>
      files_processed (state_of (process_file w a st f)) = files_processed st \<and>
      total_lines (state_of (process_file w a st f)) = total_lines st \<and>
      counted (state_of (process_file w a st f)) = counted st \<and>
      (print_ok w (ErrorReading f) \<longrightarrow>
         process_file w a st f = Continue (st\<lparr>messages := messages st @ [ErrorReading f]\<rparr>)))"
proof (intro conjI impI allI)
  assume "source_exists w \<and> source_is_dir w \<and> output_accepts w (expected_output w a) \<and>
    (\<forall>f \<in> set (files_to_combine w a). print_ok w (file_notice w a f))"
  then have h: "source_exists w" "source_is_dir w" "output_accepts w (expected_output w a)"
    "\<forall>f \<in> set (files_to_combine w a). print_ok w (file_notice w a f)" by simp_all
  show "processed (combine_files w a) =
        length (files_to_combine w a) -
        length (filter (\<lambda>f. isl (read_file w a f)) (files_to_combine w a))"
  proof (cases "files_to_combine w a = []")
    case True
    with h(1,2) show ?thesis by (simp add: combine_files_def Let_def)
  next
    case False
    from combine_files_accepted [OF h(1,2) False h(3,4)] show ?thesis
      by (simp add: filter_readable_length)
  qed
  assume n: "files_to_combine w a \<noteq> []"
  from combine_files_accepted [OF h(1,2) n h(3,4)]
  show "success (combine_files w a)"
    "out_file (combine_files w a) = Some (expected_output w a)"
    "notices (combine_files w a) = found_notices w a @ map (file_notice w a) (files_to_combine w a)"
    by simp_all
next
  fix f :: entry show "isl (read_file w a f) \<longleftrightarrow> file_bytes f = None"
    by (cases "file_bytes f") (simp_all add: read_file_def)
next
  fix st :: combining and f :: entry
  assume r: "isl (read_file w a f)"
  from read_error_skipped(6) [OF r] show n: "file_notice w a f = ErrorReading f" .
  from read_error_skipped(1-4) [OF r, of st]
  show "written (state_of (process_file w a st f)) = written st"
    "files_processed (state_of (process_file w a st f)) = files_processed st"
    "total_lines (state_of (process_file w a st f)) = total_lines st"
    "counted (state_of (process_file w a st f)) = counted st"
    by simp_all
  assume "print_ok w (ErrorReading f)"
  with n read_error_skipped(5) [OF r, of st]
  show "process_file w a st f = Continue (st\<lparr>messages := messages st @ [ErrorReading f]\<rparr>)"
    by simp
qed

text \<open>
  The theorem on four files, of which two cannot be read, written with
  \<open>--encoding ascii\<close>: the output file refuses what is not ASCII, and the run asks it
  for nothing of the kind.
\<close>

theorem processed_count_witness:
  "output_accepts
     ((sample_world [sample_file [''a.txt''] ''a'' 1,
                     (sample_file [''b.bin''] [] 2)\<lparr>file_bytes := None\<rparr>,
                     (sample_file [''c.txt''] [] 3)\<lparr>file_bytes := None\<rparr>,
                     sample_file [''d.txt''] ''d'' 4])\<lparr>write_ok := ascii_only\<rparr>)
     (expected_output
        ((sample_world [sample_file [''a.txt''] ''a'' 1,
                        (sample_file [''b.bin''] [] 2)\<lparr>file_bytes := None\<rparr>,
                        (sample_file [''c.txt''] [] 3)\<lparr>file_bytes := None\<rparr>,
                        sample_file [''d.txt''] ''d'' 4])\<lparr>write_ok := ascii_only\<rparr>)
        (arguments_of (sample_cli\<lparr>cli_encoding := ''ascii''\<rparr>))) \<and>
   processed (combine_files
     ((sample_world [sample_file [''a.txt''] ''a'' 1,
                     (sample_file [''b.bin''] [] 2)\<lparr>file_bytes := None\<rparr>,
                     (sample_file [''c.txt''] [] 3)\<lparr>file_bytes := None\<rparr>,
                     sample_file [''d.txt''] ''d'' 4])\<lparr>write_ok := ascii_only\<rparr>)
     (arguments_of (sample_cli\<lparr>cli_encoding := ''ascii''\<rparr>))) = 2 \<and>
   success (combine_files
     ((sample_world [sample_file [''a.txt''] ''a'' 1,
                     (sample_file [''b.bin''] [] 2)\<lparr>file_bytes := None\<rparr>,
                     (sample_file [''c.txt''] [] 3)\<lparr>file_bytes := None\<rparr>,
                     sample_file [''d.txt''] ''d'' 4])\<lparr>write_ok := ascii_only\<rparr>)
     (arguments_of (sample_cli\<lparr>cli_encoding := ''ascii''\<rparr>)))"
proof -
  let ?w = "(sample_world [sample_file [''a.txt''] ''a'' 1,
                     (sample_file [''b.bin''] [] 2)\<lparr>file_bytes := None\<rparr>,
                     (sample_file [''c.txt''] [] 3)\<lparr>file_bytes := None\<rparr>,
                     sample_file [''d.txt''] ''d'' 4])\<lparr>write_ok := ascii_only\<rparr>"
  let ?a = "arguments_of (sample_cli\<lparr>cli_encoding := ''ascii''\<rparr>)"
  have s: "source_exists ?w" "source_is_dir ?w" by (simp_all add: sample_world_def)
  have o: "output_accepts ?w (expected_output ?w ?a)"
    by (simp add: output_accepts_def expected_output_def readable_block_def line_count_def
        combiner_eval newline_def separator_def rule80_def file_name_def
        str_nat.simps str_commas.simps digit_char_def list_all_iff)
  have p: "\<forall>f \<in> set (files_to_combine ?w ?a). print_ok ?w (file_notice ?w ?a f)"
    by (simp add: sample_world_def)
  have n: "length (files_to_combine ?w ?a) = 4"
    "length (filter (\<lambda>f. isl (read_file ?w ?a f)) (files_to_combine ?w ?a)) = 2"
    by (simp_all add: combiner_eval)
  from n(1) have ne: "files_to_combine ?w ?a \<noteq> []" by auto
  from processed_count [of ?w ?a] s o p ne have
    "processed (combine_files ?w ?a) =
        length (files_to_combine ?w ?a) -
        length (filter (\<lambda>f. isl (read_file ?w ?a f)) (files_to_combine ?w ?a))"
    "success (combine_files ?w ?a)" by blast+
  with n o show ?thesis by simp
qed

text \<open>
  Claim C4 as stated fails in two ways. When the output file cannot be opened: one
  file matches, its read raises nothing, and the count returned is 0. When \<open>stdout\<close>
  cannot print the check mark and the cross: two files match, no read raises and no
  operation on the output file fails, the \<open>print\<close> of line 108 raises for the first
  file after it is counted, the \<open>print\<close> of line 113 raises in the handler, and the run
  returns \<open>(1, 1, False)\<close>. With the same \<open>stdout\<close> a read error aborts the run: when the
  first of two files cannot be read, the \<open>print\<close> of line 113 raises, the second file
  is not processed, and the run returns \<open>(0, 0, False)\<close>.
\<close>

theorem stated_count_counterexample:
  "length (files_to_combine ((sample_world [sample_file [''a.txt''] ''one'' 1])\<lparr>open_ok := False\<rparr>)
     (arguments_of sample_cli)) = 1 \<and>
   filter (\<lambda>f. isl (read_file ((sample_world [sample_file [''a.txt''] ''one'' 1])\<lparr>open_ok := False\<rparr>)
       (arguments_of sample_cli) f))
     (files_to_combine ((sample_world [sample_file [''a.txt''] ''one'' 1])\<lparr>open_ok := False\<rparr>)
        (arguments_of sample_cli)) = [] \<and>
   processed (combine_files ((sample_world [sample_file [''a.txt''] ''one'' 1])\<lparr>open_ok := False\<rparr>)
     (arguments_of sample_cli)) = 0 \<and>
   length (files_to_combine
     ((sample_world [sample_file [''a.txt''] (''one'' @ [CHR 0x0A]) 1,
                     sample_file [''b.txt''] (''two'' @ [CHR 0x0A]) 2])\<lparr>print_ok := no_marks\<rparr>)
     (arguments_of sample_cli)) = 2 \<and>
   filter (\<lambda>f. isl (read_file
       ((sample_world [sample_file [''a.txt''] (''one'' @ [CHR 0x0A]) 1,
                       sample_file [''b.txt''] (''two'' @ [CHR 0x0A]) 2])\<lparr>print_ok := no_marks\<rparr>)
       (arguments_of sample_cli) f))
     (files_to_combine
       ((sample_world [sample_file [''a.txt''] (''one'' @ [CHR 0x0A]) 1,
                       sample_file [''b.txt''] (''two'' @ [CHR 0x0A]) 2])\<lparr>print_ok := no_marks\<rparr>)
       (arguments_of sample_cli)) = [] \<and>
   output_accepts
     ((sample_world [sample_file [''a.txt''] (''one'' @ [CHR 0x0A]) 1,
                     sample_file [''b.txt''] (''two'' @ [CHR 0x0A]) 2])\<lparr>print_ok := no_marks\<rparr>)
     (expected_output
       ((sample_world [sample_file [''a.txt''] (''one'' @ [CHR 0x0A]) 1,
                       sample_file [''b.txt''] (''two'' @ [CHR 0x0A]) 2])\<lparr>print_ok := no_marks\<rparr>)
       (arguments_of sample_cli)) \<and>
   processed (combine_files
     ((sample_world [sample_file [''a.txt''] (''one'' @ [CHR 0x0A]) 1,
                     sample_file [''b.txt''] (''two'' @ [CHR 0x0A]) 2])\<lparr>print_ok := no_marks\<rparr>)
     (arguments_of sample_cli)) = 1 \<and>
   lines_total (combine_files
     ((sample_world [sample_file [''a.txt''] (''one'' @ [CHR 0x0A]) 1,
                     sample_file [''b.txt''] (''two'' @ [CHR 0x0A]) 2])\<lparr>print_ok := no_marks\<rparr>)
     (arguments_of sample_cli)) = 1 \<and>
   \<not> success (combine_files
     ((sample_world [sample_file [''a.txt''] (''one'' @ [CHR 0x0A]) 1,
                     sample_file [''b.txt''] (''two'' @ [CHR 0x0A]) 2])\<lparr>print_ok := no_marks\<rparr>)
     (arguments_of sample_cli)) \<and>
   combine_files
     ((sample_world [(sample_file [''a.txt''] [] 1)\<lparr>file_bytes := None\<rparr>,
                     sample_file [''b.txt''] (''two'' @ [CHR 0x0A]) 2])\<lparr>print_ok := no_marks\<rparr>)
     (arguments_of sample_cli) =
   \<lparr>processed = 0, lines_total = 0, success = False,
    out_file = Some (header_chunks
      ((sample_world [(sample_file [''a.txt''] [] 1)\<lparr>file_bytes := None\<rparr>,
                      sample_file [''b.txt''] (''two'' @ [CHR 0x0A]) 2])\<lparr>print_ok := no_marks\<rparr>)
      (arguments_of sample_cli)
      [(sample_file [''a.txt''] [] 1)\<lparr>file_bytes := None\<rparr>,
       sample_file [''b.txt''] (''two'' @ [CHR 0x0A]) 2]),
    notices = [FoundFiles 2 ''creation date'', OutputPath ''out.txt'', Dashes, ErrorWriting],
    counted_files = []\<rparr>"
proof (intro conjI)
  let ?v = "(sample_world [sample_file [''a.txt''] ''one'' 1])\<lparr>open_ok := False\<rparr>"
  let ?w = "(sample_world [sample_file [''a.txt''] (''one'' @ [CHR 0x0A]) 1,
                     sample_file [''b.txt''] (''two'' @ [CHR 0x0A]) 2])\<lparr>print_ok := no_marks\<rparr>"
  let ?a = "arguments_of sample_cli"
  show "length (files_to_combine ?v ?a) = 1" by (simp add: combiner_eval)
  show "filter (\<lambda>f. isl (read_file ?v ?a f)) (files_to_combine ?v ?a) = []"
    by (simp add: combiner_eval)
  show "processed (combine_files ?v ?a) = 0" by (simp add: combiner_eval)
  show "length (files_to_combine ?w ?a) = 2" by (simp add: combiner_eval)
  show "filter (\<lambda>f. isl (read_file ?w ?a f)) (files_to_combine ?w ?a) = []"
    by (simp add: combiner_eval)
  show "output_accepts ?w (expected_output ?w ?a)"
    by (simp add: output_accepts_def expected_output_def readable_block_def line_count_def
        combiner_eval)
  show "processed (combine_files ?w ?a) = 1"
    by (simp add: combiner_eval no_marks_def newline_def)
  show "lines_total (combine_files ?w ?a) = 1"
    by (simp add: combiner_eval no_marks_def newline_def)
  show "\<not> success (combine_files ?w ?a)"
    by (simp add: combiner_eval no_marks_def newline_def)
  show "combine_files
     ((sample_world [(sample_file [''a.txt''] [] 1)\<lparr>file_bytes := None\<rparr>,
                     sample_file [''b.txt''] (''two'' @ [CHR 0x0A]) 2])\<lparr>print_ok := no_marks\<rparr>)
     ?a =
   \<lparr>processed = 0, lines_total = 0, success = False,
    out_file = Some (header_chunks
      ((sample_world [(sample_file [''a.txt''] [] 1)\<lparr>file_bytes := None\<rparr>,
                      sample_file [''b.txt''] (''two'' @ [CHR 0x0A]) 2])\<lparr>print_ok := no_marks\<rparr>)
      ?a
      [(sample_file [''a.txt''] [] 1)\<lparr>file_bytes := None\<rparr>,
       sample_file [''b.txt''] (''two'' @ [CHR 0x0A]) 2]),
    notices = [FoundFiles 2 ''creation date'', OutputPath ''out.txt'', Dashes, ErrorWriting],
    counted_files = []\<rparr>"
    by (simp add: combiner_eval no_marks_def newline_def)
qed

text \<open>
  Claim C6 does not hold of the code. With \<open>--encoding ascii\<close>, the separator of a
  file whose name holds \<open>0xE9\<close> cannot be encoded: \<open>outfile.write\<close> raises inside the
  \<open>try\<close> block of the loop, the handler of line 112 prints \<open>Error reading\<close>, and the
  run goes on. The next file is processed, \<open>combine_files\<close> reports success with the
  count 1, and \<open>main\<close> returns 0.
\<close>

theorem write_error_swallowed:
  "success (combine_files
     ((sample_world [sample_file [''caf'' @ [CHR 0xE9] @ ''.txt''] (''one'' @ [CHR 0x0A]) 1,
                     sample_file [''d.txt''] (''two'' @ [CHR 0x0A]) 2])\<lparr>write_ok := ascii_only\<rparr>)
     (arguments_of (sample_cli\<lparr>cli_encoding := ''ascii''\<rparr>))) \<and>
   processed (combine_files
     ((sample_world [sample_file [''caf'' @ [CHR 0xE9] @ ''.txt''] (''one'' @ [CHR 0x0A]) 1,
                     sample_file [''d.txt''] (''two'' @ [CHR 0x0A]) 2])\<lparr>write_ok := ascii_only\<rparr>)
     (arguments_of (sample_cli\<lparr>cli_encoding := ''ascii''\<rparr>))) = 1 \<and>
   notices (combine_files
     ((sample_world [sample_file [''caf'' @ [CHR 0xE9] @ ''.txt''] (''one'' @ [CHR 0x0A]) 1,
                     sample_file [''d.txt''] (''two'' @ [CHR 0x0A]) 2])\<lparr>write_ok := ascii_only\<rparr>)
     (arguments_of (sample_cli\<lparr>cli_encoding := ''ascii''\<rparr>))) =
     [FoundFiles 2 ''creation date'', OutputPath ''out.txt'', Dashes,
      ErrorReading (sample_file [''caf'' @ [CHR 0xE9] @ ''.txt''] (''one'' @ [CHR 0x0A]) 1),
      Processed (sample_file [''d.txt''] (''two'' @ [CHR 0x0A]) 2) 1] \<and>
   fst (main
     ((sample_world [sample_file [''caf'' @ [CHR 0xE9] @ ''.txt''] (''one'' @ [CHR 0x0A]) 1,
                     sample_file [''d.txt''] (''two'' @ [CHR 0x0A]) 2])\<lparr>write_ok := ascii_only\<rparr>)
     (sample_cli\<lparr>cli_encoding := ''ascii''\<rparr>)) = 0"
  by (simp add: combiner_eval newline_def separator_def rule80_def file_name_def
      str_nat.simps str_commas.simps digit_char_def list_all_iff)

end
